theory Spec2Isabelle
  imports Main "HOL-Library.Sublist" "HOL-Library.Word"
begin

section \<open>JavaScript strings and the string primitives used by parse-csv\<close>

text \<open>
  A JavaScript string is a sequence of UTF-16 code units. The model is a \<open>char list\<close>
  whose characters are the code units 0..255 (ASCII and Latin-1), so \<open>length\<close> is the
  \<^verbatim>\<open>.length\<close> of the source. \<^verbatim>\<open>undefined\<close> is \<open>None\<close> of an option type.
  A thrown \<^verbatim>\<open>Error(msg)\<close> is \<open>Inl msg\<close> of a sum type.
\<close>

definition code :: "char \<Rightarrow> nat" where
  "code c = of_char c"

text \<open>White space and line terminators of ECMAScript in this range: TAB, LF, VT, FF, CR,
  SPACE and NBSP. They are what \<^verbatim>\<open>trim()\<close> strips and what \<^verbatim>\<open>\s\<close> matches.\<close>

definition is_ws :: "char \<Rightarrow> bool" where
  "is_ws c = (code c = 9 \<or> code c = 10 \<or> code c = 11 \<or> code c = 12 \<or> code c = 13
              \<or> code c = 32 \<or> code c = 160)"

definition is_lower_az :: "char \<Rightarrow> bool" where
  "is_lower_az c = (97 \<le> code c \<and> code c \<le> 122)"

definition is_upper_az :: "char \<Rightarrow> bool" where
  "is_upper_az c = (65 \<le> code c \<and> code c \<le> 90)"

definition is_digit :: "char \<Rightarrow> bool" where
  "is_digit c = (48 \<le> code c \<and> code c \<le> 57)"

text \<open>\<^verbatim>\<open>toLowerCase()\<close>: A-Z and the Latin-1 capitals U+00C0..U+00DE (without the
  multiplication sign U+00D7) move up by 32; everything else stays.\<close>

definition lower_char :: "char \<Rightarrow> char" where
  "lower_char c =
     (if is_upper_az c \<or> (192 \<le> code c \<and> code c \<le> 222 \<and> code c \<noteq> 215)
      then char_of (code c + 32) else c)"

definition toLowerCase :: "string \<Rightarrow> string" where
  "toLowerCase s = map lower_char s"

definition trim :: "string \<Rightarrow> string" where
  "trim s = rev (dropWhile is_ws (rev (dropWhile is_ws s)))"

text \<open>\<^verbatim>\<open>s.split(sep)\<close> for a one-character separator: never empty, \<^verbatim>\<open>"".split(",")\<close>
  is \<^verbatim>\<open>[""]\<close>.\<close>

fun split_on :: "char \<Rightarrow> string \<Rightarrow> string list" where
  "split_on sep [] = [[]]"
| "split_on sep (c # cs) =
     (if c = sep then [] # split_on sep cs
      else (case split_on sep cs of [] \<Rightarrow> [[c]] | w # ws \<Rightarrow> (c # w) # ws))"

text \<open>\<^verbatim>\<open>xs.join(sep)\<close>.\<close>

fun join :: "string \<Rightarrow> string list \<Rightarrow> string" where
  "join sep [] = []"
| "join sep [x] = x"
| "join sep (x # y # ys) = x @ sep @ join sep (y # ys)"

text \<open>\<^verbatim>\<open>s.startsWith(p)\<close> and \<^verbatim>\<open>s.includes(p)\<close>.\<close>

definition startsWith :: "string \<Rightarrow> string \<Rightarrow> bool" where
  "startsWith s p = (take (length p) s = p)"

fun includes_str :: "string \<Rightarrow> string \<Rightarrow> bool" where
  "includes_str [] p = (p = [])"
| "includes_str (c # cs) p = (startsWith (c # cs) p \<or> includes_str cs p)"

text \<open>\<^verbatim>\<open>xs[i]\<close>: \<^verbatim>\<open>undefined\<close> out of range.\<close>

definition nth_opt :: "'a list \<Rightarrow> nat \<Rightarrow> 'a option" where
  "nth_opt xs i = (if i < length xs then Some (xs ! i) else None)"

text \<open>\<^verbatim>\<open>xs.findIndex(p)\<close>: \<open>None\<close> is the source's \<^verbatim>\<open>-1\<close>.\<close>

fun findIndex :: "('a \<Rightarrow> bool) \<Rightarrow> 'a list \<Rightarrow> nat option" where
  "findIndex p [] = None"
| "findIndex p (x # xs) =
     (if p x then Some 0 else (case findIndex p xs of None \<Rightarrow> None | Some i \<Rightarrow> Some (Suc i)))"

text \<open>Decimal rendering of a number inside a template literal.\<close>

definition digit_char :: "nat \<Rightarrow> char" where
  "digit_char d = char_of (48 + d)"

fun show_nat :: "nat \<Rightarrow> string" where
  "show_nat n = (if n < 10 then [digit_char n] else show_nat (n div 10) @ [digit_char (n mod 10)])"

declare show_nat.simps [simp del]

section \<open>Strict variant: sanitising and validating\<close>

definition is_quote :: "char \<Rightarrow> bool" where
  "is_quote c = (c = CHR 0x22 \<or> c = CHR 0x27)"

text \<open>\<^verbatim>\<open>.replace(/^["']|["']$/g, "")\<close>: one quote character is removed at the start and
  one at the end, when they are there.\<close>

definition stripQuotes :: "string \<Rightarrow> string" where
  "stripQuotes s =
     (let s1 = (case s of [] \<Rightarrow> [] | c # cs \<Rightarrow> if is_quote c then cs else s)
      in if s1 \<noteq> [] \<and> is_quote (last s1) then butlast s1 else s1)"

definition sanitizeCSVValue :: "string \<Rightarrow> string" where
  "sanitizeCSVValue v =
     (let trimmed = stripQuotes (trim v)
      in if startsWith trimmed ''='' \<or> startsWith trimmed ''+''
            \<or> startsWith trimmed ''-'' \<or> startsWith trimmed ''@''
         then drop 1 trimmed
         else trimmed)"

text \<open>The result of a validator: \<^verbatim>\<open>{ valid: boolean; error?: string }\<close>.\<close>

record ValidationResult =
  valid :: bool
  error :: "string option"

definition ok :: ValidationResult where
  "ok = \<lparr>valid = True, error = None\<rparr>"

definition invalid :: "string \<Rightarrow> ValidationResult" where
  "invalid msg = \<lparr>valid = False, error = Some msg\<rparr>"

text \<open>The constants of \<^verbatim>\<open>VALIDATION\<close>. \<^verbatim>\<open>birthday.maxYear\<close> is
  \<^verbatim>\<open>new Date().getFullYear()\<close>, read once when the module loads: it is the parameter
  \<open>maxYear\<close> of every function that uses it.\<close>

definition name_maxLength :: nat where "name_maxLength = 100"
definition postal_maxLength :: nat where "postal_maxLength = 20"
definition minYear :: nat where "minYear = 1900"
definition maxRows :: nat where "maxRows = 1000"
definition maxFileSize :: nat where "maxFileSize = 5 * 1024 * 1024"

text \<open>\<^verbatim>\<open>/^[a-zA-Z\s\-'.]+$/\<close>\<close>

definition name_class :: "char \<Rightarrow> bool" where
  "name_class c = (is_lower_az c \<or> is_upper_az c \<or> is_ws c
                   \<or> c = CHR ''-'' \<or> c = CHR 0x27 \<or> c = CHR ''.'')"

definition name_pattern :: "string \<Rightarrow> bool" where
  "name_pattern s = (s \<noteq> [] \<and> list_all name_class s)"

text \<open>\<^verbatim>\<open>/^[A-Z0-9\s\-]+$/i\<close>: with the \<^verbatim>\<open>i\<close> flag the class matches both cases
  of the ASCII letters.\<close>

definition postal_class :: "char \<Rightarrow> bool" where
  "postal_class c = (is_upper_az c \<or> is_lower_az c \<or> is_digit c \<or> is_ws c \<or> c = CHR ''-'')"

definition postal_pattern :: "string \<Rightarrow> bool" where
  "postal_pattern s = (s \<noteq> [] \<and> list_all postal_class s)"

text \<open>\<^verbatim>\<open>/^\d{4}-\d{2}-\d{2}$/\<close>\<close>

definition birthday_pattern :: "string \<Rightarrow> bool" where
  "birthday_pattern s =
     (case s of
        [y1, y2, y3, y4, h1, m1, m2, h2, d1, d2] \<Rightarrow>
          is_digit y1 \<and> is_digit y2 \<and> is_digit y3 \<and> is_digit y4 \<and> h1 = CHR ''-''
          \<and> is_digit m1 \<and> is_digit m2 \<and> h2 = CHR ''-'' \<and> is_digit d1 \<and> is_digit d2
      | _ \<Rightarrow> False)"

text \<open>\<^verbatim>\<open>parseInt(s, 10)\<close>: leading white space is skipped, a sign is read, then the
  longest run of decimal digits; \<open>None\<close> is \<^verbatim>\<open>NaN\<close>, which compares false with both bounds
  of the year check.\<close>

definition digits_value :: "string \<Rightarrow> nat" where
  "digits_value ds = foldl (\<lambda>acc d. 10 * acc + (code d - 48)) 0 ds"

definition parseInt10 :: "string \<Rightarrow> int option" where
  "parseInt10 s =
     (let t = dropWhile is_ws s;
          neg = startsWith t ''-'';
          u = (if startsWith t ''-'' \<or> startsWith t ''+'' then drop 1 t else t);
          ds = takeWhile is_digit u
      in if ds = [] then None
         else Some (if neg then - int (digits_value ds) else int (digits_value ds)))"

definition validateName :: "string option \<Rightarrow> ValidationResult" where
  "validateName name =
     (case name of
        None \<Rightarrow> invalid ''Name is required''
      | Some n \<Rightarrow>
          if length n = 0 then invalid ''Name is required''
          else if length n > name_maxLength
            then invalid (''Name must be less than '' @ show_nat name_maxLength @ '' characters'')
          else if \<not> name_pattern n then invalid ''Name contains invalid characters''
          else ok)"

definition validatePostalCode :: "string option \<Rightarrow> ValidationResult" where
  "validatePostalCode postalCode =
     (case postalCode of
        None \<Rightarrow> invalid ''Postal code is required''
      | Some p \<Rightarrow>
          if length p = 0 then invalid ''Postal code is required''
          else if length p > postal_maxLength
            then invalid (''Postal code must be less than '' @ show_nat postal_maxLength
                          @ '' characters'')
          else if \<not> postal_pattern p then invalid ''Postal code contains invalid characters''
          else ok)"

definition validateBirthday :: "nat \<Rightarrow> string option \<Rightarrow> ValidationResult" where
  "validateBirthday maxYear birthday =
     (case birthday of
        None \<Rightarrow> invalid ''Birthday is required''
      | Some b \<Rightarrow>
          if length b = 0 then invalid ''Birthday is required''
          else if \<not> birthday_pattern b then invalid ''Birthday must be in YYYY-MM-DD format''
          else (case parseInt10 (split_on (CHR ''-'') b ! 0) of
                  None \<Rightarrow> ok
                | Some year \<Rightarrow>
                    if year < int minYear \<or> year > int maxYear
                    then invalid (''Birth year must be between '' @ show_nat minYear
                                  @ '' and '' @ show_nat maxYear)
                    else ok))"

section \<open>Strict variant: credentials\<close>

text \<open>\<^verbatim>\<open>.replace(/\s+/g, ".")\<close>: every maximal run of white space becomes one period.\<close>

function replaceWsRuns :: "string \<Rightarrow> string" where
  "replaceWsRuns [] = []"
| "replaceWsRuns (c # cs) =
     (if is_ws c then CHR ''.'' # replaceWsRuns (dropWhile is_ws cs)
      else c # replaceWsRuns cs)"
  by pat_completeness auto
termination
  by (relation "measure length") (auto simp: le_imp_less_Suc length_dropWhile_le)

text \<open>\<^verbatim>\<open>.replace(/[^a-z\s]/g, "")\<close> keeps the letters a-z and the white space.\<close>

definition generateEmail :: "string \<Rightarrow> string" where
  "generateEmail nm =
     (let cleanName = replaceWsRuns
            (filter (\<lambda>c. is_lower_az c \<or> is_ws c) (trim (toLowerCase nm)))
      in cleanName @ ''@company.com'')"

text \<open>What the code throws: \<^verbatim>\<open>new Error(msg)\<close>, the \<^verbatim>\<open>TypeError\<close> of a method call on
  \<^verbatim>\<open>undefined\<close>, the \<^verbatim>\<open>RangeError\<close> of \<^verbatim>\<open>new Uint8Array(length)\<close> for a length that
  is no valid index, the \<^verbatim>\<open>QuotaExceededError\<close> of \<^verbatim>\<open>crypto.getRandomValues\<close> on more
  than 65536 bytes, the \<^verbatim>\<open>SyntaxError\<close> of \<^verbatim>\<open>req.json()\<close>, and the error object of a
  failed insert.\<close>

datatype thrown =
    Error string
  | TypeError
  | RangeError
  | QuotaExceededError
  | SyntaxError
  | InsertError string

definition charset :: string where
  "charset = ''ABCDEFGHIJKLMNOPQRSTUVWXYZabcdefghijklmnopqrstuvwxyz0123456789!@#$%^&*''"

text \<open>\<^verbatim>\<open>x => charset[x % charset.length]\<close>\<close>

definition pickChar :: "8 word \<Rightarrow> char" where
  "pickChar x = charset ! (unat x mod length charset)"

text \<open>The bytes that \<^verbatim>\<open>crypto.getRandomValues\<close> writes are the parameter \<open>rnd\<close>: \<open>rnd i\<close>
  is the byte at index \<open>i\<close> of the array. The length is a natural number.
  \<^verbatim>\<open>new Uint8Array(length)\<close> throws for a length above the largest index, \<open>2^53 - 1\<close>
  (an engine may refuse a smaller length for lack of memory, which is outside this model);
  \<^verbatim>\<open>crypto.getRandomValues\<close> throws for an array of more than 65536 bytes.\<close>

definition maxIndex :: nat where
  "maxIndex = 2 ^ 53 - 1"

definition generateSecurePassword :: "(nat \<Rightarrow> 8 word) \<Rightarrow> nat \<Rightarrow> thrown + string" where
  "generateSecurePassword rnd len =
     (if len > maxIndex then Inl RangeError
      else if len > 65536 then Inl QuotaExceededError
      else let array = map rnd [0..<len] in Inr (map pickChar array))"

section \<open>Strict variant: parseCSV\<close>

text \<open>The interfaces \<^verbatim>\<open>GeneratedUser\<close> and \<^verbatim>\<open>CSVRow\<close>, and the record that the handler
  inserts into \<^verbatim>\<open>imported_users\<close>. A field read from an array past its end is
  \<^verbatim>\<open>undefined\<close> at run time, so the string fields are optional.\<close>

record GeneratedUser =
  full_name :: "string option"
  postal_code :: "string option"
  birthday :: "string option"
  generated_email :: string
  generated_password :: string

record ImportedUser = GeneratedUser +
  imported_by :: string

record CSVRow =
  name :: "string option"
  postal_code :: "string option"
  birthday :: "string option"

text \<open>\<^verbatim>\<open>${x}\<close> of an optional string in a template literal.\<close>

definition interp :: "string option \<Rightarrow> string" where
  "interp x = (case x of None \<Rightarrow> ''undefined'' | Some s \<Rightarrow> s)"

text \<open>The loop over the data lines (source lines 152 to 182). \<open>i\<close> is the loop index, the
  pair is the arrays \<^verbatim>\<open>rows\<close> and \<^verbatim>\<open>errors\<close>.\<close>

fun rowLoop :: "nat \<Rightarrow> nat \<Rightarrow> nat \<Rightarrow> nat \<Rightarrow> nat \<Rightarrow> string list
                \<Rightarrow> CSVRow list \<times> string list \<Rightarrow> CSVRow list \<times> string list" where
  "rowLoop maxYear nameIndex postalIndex birthdayIndex i [] (rows, errors) = (rows, errors)"
| "rowLoop maxYear nameIndex postalIndex birthdayIndex i (l # ls) (rows, errors) =
     (let line = trim l in
      if line = [] then rowLoop maxYear nameIndex postalIndex birthdayIndex (Suc i) ls (rows, errors)
      else
        let values = map sanitizeCSVValue (split_on (CHR '','') line);
            nm = nth_opt values nameIndex;
            postal = nth_opt values postalIndex;
            bday = nth_opt values birthdayIndex;
            nameValidation = validateName nm;
            postalValidation = validatePostalCode postal;
            birthdayValidation = validateBirthday maxYear bday
        in
          if \<not> valid nameValidation then
            rowLoop maxYear nameIndex postalIndex birthdayIndex (Suc i) ls
              (rows, errors @ [''Row '' @ show_nat i @ '': '' @ interp (error nameValidation)])
          else if \<not> valid postalValidation then
            rowLoop maxYear nameIndex postalIndex birthdayIndex (Suc i) ls
              (rows, errors @ [''Row '' @ show_nat i @ '': '' @ interp (error postalValidation)])
          else if \<not> valid birthdayValidation then
            rowLoop maxYear nameIndex postalIndex birthdayIndex (Suc i) ls
              (rows, errors @ [''Row '' @ show_nat i @ '': '' @ interp (error birthdayValidation)])
          else
            rowLoop maxYear nameIndex postalIndex birthdayIndex (Suc i) ls
              (rows @ [\<lparr>name = nm, postal_code = postal, birthday = bday\<rparr>], errors))"

text \<open>Source line 109: the non-blank lines of the trimmed content.\<close>

definition nonBlankLines :: "string \<Rightarrow> string list" where
  "nonBlankLines csvContent =
     filter (\<lambda>line. length (trim line) > 0) (split_on (CHR 0x0A) (trim csvContent))"

text \<open>Source line 121.\<close>

definition parseHeaders :: "string \<Rightarrow> string list" where
  "parseHeaders headerLine =
     map (\<lambda>h. toLowerCase (sanitizeCSVValue h)) (split_on (CHR '','') headerLine)"

text \<open>Source lines 126 to 134.\<close>

definition findNameIndex :: "string list \<Rightarrow> nat option" where
  "findNameIndex headers =
     findIndex (\<lambda>h. includes_str h ''name'' \<or> h = ''full_name'' \<or> h = ''fullname'') headers"

definition findPostalIndex :: "string list \<Rightarrow> nat option" where
  "findPostalIndex headers =
     findIndex (\<lambda>h. includes_str h ''postal'' \<or> includes_str h ''zip''
                     \<or> h = ''postal_code'' \<or> h = ''postalcode'') headers"

definition findBirthdayIndex :: "string list \<Rightarrow> nat option" where
  "findBirthdayIndex headers =
     findIndex (\<lambda>h. includes_str h ''birth'' \<or> includes_str h ''dob''
                     \<or> h = ''birthday'' \<or> h = ''date_of_birth'') headers"

text \<open>Source lines 137 to 144: the message of the error for unresolved columns.\<close>

definition missingColumns :: "nat option \<Rightarrow> nat option \<Rightarrow> nat option \<Rightarrow> string list" where
  "missingColumns nameIndex postalIndex birthdayIndex =
     (if nameIndex = None then [''name (e.g., 'name', 'full_name', 'fullname')''] else [])
     @ (if postalIndex = None then [''postal code (e.g., 'postal_code', 'zip', 'postal')''] else [])
     @ (if birthdayIndex = None
        then [''birthday (e.g., 'birthday', 'birth', 'dob', 'date_of_birth')''] else [])"

definition missingMessage :: "string list \<Rightarrow> string list \<Rightarrow> string" where
  "missingMessage missing headers =
     ''CSV is missing required columns: '' @ join '', '' missing
     @ ''. Found columns: '' @ join '', '' headers"

text \<open>Source lines 188 to 190.\<close>

definition noRowsMessage :: "string list \<Rightarrow> string" where
  "noRowsMessage errors =
     ''No valid data rows found in CSV. ''
     @ (if length errors > 0 then ''Errors: '' @ join ''; '' (take 3 errors) else [])"

text \<open>\<open>parseCSV_trace\<close> is the function with the final content of its \<^verbatim>\<open>errors\<close> array
  (what \<^verbatim>\<open>console.warn\<close> prints) beside the result; \<open>parseCSV\<close> is the result.\<close>

definition parseCSV_trace :: "nat \<Rightarrow> string \<Rightarrow> (thrown + CSVRow list) \<times> string list" where
  "parseCSV_trace maxYear csvContent =
     (if length csvContent > maxFileSize then
        (Inl (Error (''CSV file is too large. Maximum size is ''
                     @ show_nat (maxFileSize div (1024 * 1024)) @ ''MB'')), [])
      else
        let lines = nonBlankLines csvContent in
        if length lines < 2 then
          (Inl (Error ''CSV must contain headers and at least one data row''), [])
        else if length lines - 1 > maxRows then
          (Inl (Error (''CSV has too many rows. Maximum is '' @ show_nat maxRows @ '' rows'')), [])
        else
          let headers = parseHeaders (lines ! 0);
              nameIndex = findNameIndex headers;
              postalIndex = findPostalIndex headers;
              birthdayIndex = findBirthdayIndex headers
          in case (nameIndex, postalIndex, birthdayIndex) of
               (Some ni, Some pi, Some bi) \<Rightarrow>
                 (case rowLoop maxYear ni pi bi 1 (drop 1 lines) ([], []) of
                    (rows, errors) \<Rightarrow>
                      if length rows = 0 then (Inl (Error (noRowsMessage errors)), errors)
                      else (Inr rows, errors))
             | _ \<Rightarrow>
                 (Inl (Error (missingMessage
                                (missingColumns nameIndex postalIndex birthdayIndex) headers)), []))"

definition parseCSV :: "nat \<Rightarrow> string \<Rightarrow> thrown + CSVRow list" where
  "parseCSV maxYear csvContent = fst (parseCSV_trace maxYear csvContent)"

section \<open>Permissive variant: credentials and parseCSV\<close>

text \<open>The second \<^verbatim>\<open>index.ts\<close> of the function: no validation, no limits, derived passwords.
  Its functions carry the suffix \<open>_permissive\<close> where the strict variant has one of the
  same name.\<close>

definition generateEmail_permissive :: "string \<Rightarrow> string" where
  "generateEmail_permissive nm =
     (let cleanName = replaceWsRuns (trim (toLowerCase nm))
      in cleanName @ ''@company.com'')"

text \<open>\<^verbatim>\<open>s.split(/\s+/)\<close>\<close>

function splitWsRuns :: "string \<Rightarrow> string list" where
  "splitWsRuns [] = [[]]"
| "splitWsRuns (c # cs) =
     (if is_ws c then [] # splitWsRuns (dropWhile is_ws cs)
      else (case splitWsRuns cs of [] \<Rightarrow> [[c]] | w # ws \<Rightarrow> (c # w) # ws))"
  by pat_completeness auto
termination
  by (relation "measure length") (auto simp: le_imp_less_Suc length_dropWhile_le)

text \<open>\<^verbatim>\<open>s.charAt(0).toUpperCase()\<close>: a-z and the Latin-1 small letters U+00E0..U+00FE
  (without the division sign U+00F7) move down by 32, the sharp s becomes \<^verbatim>\<open>SS\<close>. The
  upper-case forms of U+00B5 and U+00FF lie beyond U+00FF, outside this string model; the
  two characters are left as they are.\<close>

definition upperInitial :: "string \<Rightarrow> string" where
  "upperInitial s =
     (case s of
        [] \<Rightarrow> []
      | c # _ \<Rightarrow>
          if is_lower_az c \<or> (224 \<le> code c \<and> code c \<le> 254 \<and> code c \<noteq> 247)
            then [char_of (code c - 32)]
          else if code c = 223 then ''SS''
          else [c])"

text \<open>\<^verbatim>\<open>e || d\<close> on strings: the empty string is falsy.\<close>

definition orElse :: "string \<Rightarrow> string \<Rightarrow> string" where
  "orElse e d = (if e = [] then d else e)"

definition generatePassword :: "string option \<Rightarrow> string option \<Rightarrow> string option \<Rightarrow> thrown + string" where
  "generatePassword nm postalCode bday =
     (case nm of
        None \<Rightarrow> Inl TypeError
      | Some n \<Rightarrow>
          (let nameParts = splitWsRuns (trim n);
               firstInitial = orElse (upperInitial (nameParts ! 0)) ''A'';
               lastInitial = orElse (upperInitial (nameParts ! (length nameParts - 1))) ''Z''
           in (case postalCode of
                 None \<Rightarrow> Inl TypeError
               | Some p \<Rightarrow>
                   (let ds = filter is_digit p;
                        postalDigits = orElse (drop (length ds - 4) ds) ''0000''
                    in (case bday of
                          None \<Rightarrow> Inl TypeError
                        | Some b \<Rightarrow>
                            (let year = orElse (split_on (CHR ''-'') b ! 0) ''1990''
                             in Inr (firstInitial @ lastInitial @ postalDigits @ year
                                     @ ''!'')))))))"

text \<open>The loop of the permissive parseCSV (source lines 371 to 380).\<close>

fun rowLoop_permissive :: "nat \<Rightarrow> nat \<Rightarrow> nat \<Rightarrow> string list \<Rightarrow> CSVRow list \<Rightarrow> CSVRow list" where
  "rowLoop_permissive nameIndex postalIndex birthdayIndex [] rows = rows"
| "rowLoop_permissive nameIndex postalIndex birthdayIndex (l # ls) rows =
     (let values = map (\<lambda>v. stripQuotes (trim v)) (split_on (CHR '','') l) in
      if length values \<ge> 3 then
        rowLoop_permissive nameIndex postalIndex birthdayIndex ls
          (rows @ [\<lparr>name = nth_opt values nameIndex,
                     postal_code = nth_opt values postalIndex,
                     birthday = nth_opt values birthdayIndex\<rparr>])
      else rowLoop_permissive nameIndex postalIndex birthdayIndex ls rows)"

definition parseCSV_permissive :: "string \<Rightarrow> thrown + CSVRow list" where
  "parseCSV_permissive csvContent =
     (let lines = split_on (CHR 0x0A) (trim csvContent) in
      if length lines < 2 then
        Inl (Error ''CSV must contain headers and at least one data row'')
      else
        let headers = map (\<lambda>h. toLowerCase (trim h)) (split_on (CHR '','') (lines ! 0));
            nameIndex = findIndex (\<lambda>h. includes_str h ''name'') headers;
            postalIndex = findIndex (\<lambda>h. includes_str h ''postal'') headers;
            birthdayIndex = findIndex (\<lambda>h. includes_str h ''birth'') headers
        in case (nameIndex, postalIndex, birthdayIndex) of
             (Some ni, Some pi, Some bi) \<Rightarrow> Inr (rowLoop_permissive ni pi bi (drop 1 lines) [])
           | _ \<Rightarrow> Inl (Error ''CSV must contain 'name', 'postal_code', and 'birthday' columns''))"

section \<open>The request handlers\<close>

text \<open>The handler awaits three outside services in sequence. Their answers are the
  record \<open>Services\<close>; the handler is a function of the request and these answers, and
  returns the response together with the argument of the insert call it made, if any.\<close>

text \<open>\<^verbatim>\<open>supabase.auth.getUser(token)\<close>: \<open>user\<close> is the id of the user.\<close>

record AuthResult =
  user :: "string option"
  authError :: "string option"

text \<open>The query on \<^verbatim>\<open>user_roles\<close> for the role \<^verbatim>\<open>admin\<close> of the user, with
  \<^verbatim>\<open>maybeSingle()\<close>.\<close>

record RoleResult =
  userRole :: "string option"
  roleError :: "string option"

record Services =
  getUser :: "string \<Rightarrow> AuthResult"
  selectAdminRole :: "string \<Rightarrow> RoleResult"
  insertImported :: "ImportedUser list \<Rightarrow> string option"
  randomValues :: "nat \<Rightarrow> nat \<Rightarrow> 8 word"

text \<open>The body of the request as \<^verbatim>\<open>req.json()\<close> reads it: not JSON, or an object whose
  \<^verbatim>\<open>csvContent\<close> is a string or is absent.\<close>

datatype jsonBody = Malformed | Json "string option"

record Request =
  httpMethod :: string
  authorization :: "string option"
  json :: jsonBody

datatype responseBody =
    NoBody
  | ErrorMessage string
  | Caught thrown
  | Success "GeneratedUser list" nat

record Response =
  status :: nat
  body :: responseBody

record Outcome =
  response :: Response
  insertCall :: "ImportedUser list option"

text \<open>The \<^verbatim>\<open>catch\<close> block: status 400 with the message of what was thrown.\<close>

definition caught :: "thrown \<Rightarrow> ImportedUser list option \<Rightarrow> Outcome" where
  "caught e ins = \<lparr>response = \<lparr>status = 400, body = Caught e\<rparr>, insertCall = ins\<rparr>"

text \<open>\<^verbatim>\<open>s.replace(pat, rep)\<close> with a string pattern: the first occurrence only.\<close>

fun replaceFirst :: "string \<Rightarrow> string \<Rightarrow> string \<Rightarrow> string" where
  "replaceFirst pat rep [] = (if pat = [] then rep else [])"
| "replaceFirst pat rep (c # cs) =
     (if startsWith (c # cs) pat then rep @ drop (length pat) (c # cs)
      else c # replaceFirst pat rep cs)"

text \<open>\<^verbatim>\<open>csvRows.map(row => ...)\<close>, stopping at the first row whose callback throws. \<open>k\<close> is
  the position of the row.\<close>

fun mapRows :: "(nat \<Rightarrow> CSVRow \<Rightarrow> thrown + GeneratedUser) \<Rightarrow> nat \<Rightarrow> CSVRow list
                \<Rightarrow> thrown + GeneratedUser list" where
  "mapRows f k [] = Inr []"
| "mapRows f k (r # rs) =
     (case f k r of
        Inl e \<Rightarrow> Inl e
      | Inr u \<Rightarrow> (case mapRows f (Suc k) rs of Inl e \<Rightarrow> Inl e | Inr us \<Rightarrow> Inr (u # us)))"

definition toImported :: "string \<Rightarrow> GeneratedUser \<Rightarrow> ImportedUser" where
  "toImported uid u =
     \<lparr>full_name = full_name u, GeneratedUser.postal_code = GeneratedUser.postal_code u,
      GeneratedUser.birthday = GeneratedUser.birthday u, generated_email = generated_email u,
      generated_password = generated_password u, imported_by = uid\<rparr>"

text \<open>Source lines 266 to 297 (and 430 to 461): the insert and the success response.\<close>

definition store :: "Services \<Rightarrow> string \<Rightarrow> GeneratedUser list \<Rightarrow> Outcome" where
  "store env uid generatedUsers =
     (let records = map (toImported uid) generatedUsers in
      case insertImported env records of
        Some insertError \<Rightarrow> caught (InsertError insertError) (Some records)
      | None \<Rightarrow>
          \<lparr>response = \<lparr>status = 200, body = Success generatedUsers (length generatedUsers)\<rparr>,
           insertCall = Some records\<rparr>)"

definition strictUser :: "Services \<Rightarrow> nat \<Rightarrow> CSVRow \<Rightarrow> thrown + GeneratedUser" where
  "strictUser env k row =
     (case name row of
        None \<Rightarrow> Inl TypeError
      | Some n \<Rightarrow>
          (case generateSecurePassword (randomValues env k) 16 of
             Inl e \<Rightarrow> Inl e
           | Inr pw \<Rightarrow>
               Inr \<lparr>full_name = name row, GeneratedUser.postal_code = postal_code row,
                    GeneratedUser.birthday = birthday row, generated_email = generateEmail n,
                    generated_password = pw\<rparr>))"

text \<open>The strict handler (source lines 195 to 308).\<close>

definition serve :: "Services \<Rightarrow> nat \<Rightarrow> Request \<Rightarrow> Outcome" where
  "serve env maxYear req =
     (if httpMethod req = ''OPTIONS'' then
        \<lparr>response = \<lparr>status = 200, body = NoBody\<rparr>, insertCall = None\<rparr>
      else
        (case authorization req of
           None \<Rightarrow> caught (Error ''No authorization header'') None
         | Some authHeader \<Rightarrow>
             (if authHeader = [] then caught (Error ''No authorization header'') None
              else
                (let token = replaceFirst ''Bearer '' [] authHeader;
                     auth = getUser env token
                 in (case (authError auth, user auth) of
                       (None, Some uid) \<Rightarrow>
                         (let role = selectAdminRole env uid in
                          if roleError role \<noteq> None then
                            caught (Error ''Failed to verify user permissions'') None
                          else if userRole role = None then
                            \<lparr>response =
                               \<lparr>status = 403,
                                body = ErrorMessage ''Unauthorized: Admin role required''\<rparr>,
                             insertCall = None\<rparr>
                          else
                            (case json req of
                               Malformed \<Rightarrow> caught SyntaxError None
                             | Json None \<Rightarrow> caught (Error ''No CSV content provided'') None
                             | Json (Some csvContent) \<Rightarrow>
                                 (if csvContent = [] then
                                    caught (Error ''No CSV content provided'') None
                                  else
                                    (case parseCSV maxYear csvContent of
                                       Inl e \<Rightarrow> caught e None
                                     | Inr csvRows \<Rightarrow>
                                         (case mapRows (strictUser env) 0 csvRows of
                                            Inl e \<Rightarrow> caught e None
                                          | Inr generatedUsers \<Rightarrow>
                                              store env uid generatedUsers)))))
                     | _ \<Rightarrow> caught (Error ''Unauthorized'') None)))))"

definition permissiveUser :: "nat \<Rightarrow> CSVRow \<Rightarrow> thrown + GeneratedUser" where
  "permissiveUser k row =
     (case name row of
        None \<Rightarrow> Inl TypeError
      | Some n \<Rightarrow>
          (case generatePassword (name row) (postal_code row) (birthday row) of
             Inl e \<Rightarrow> Inl e
           | Inr pw \<Rightarrow>
               Inr \<lparr>full_name = name row, GeneratedUser.postal_code = postal_code row,
                    GeneratedUser.birthday = birthday row, generated_email = generateEmail_permissive n,
                    generated_password = pw\<rparr>))"

text \<open>The permissive handler (source lines 385 to 472).\<close>

definition serve_permissive :: "Services \<Rightarrow> Request \<Rightarrow> Outcome" where
  "serve_permissive env req =
     (if httpMethod req = ''OPTIONS'' then
        \<lparr>response = \<lparr>status = 200, body = NoBody\<rparr>, insertCall = None\<rparr>
      else
        (case authorization req of
           None \<Rightarrow> caught (Error ''No authorization header'') None
         | Some authHeader \<Rightarrow>
             (if authHeader = [] then caught (Error ''No authorization header'') None
              else
                (let token = replaceFirst ''Bearer '' [] authHeader;
                     auth = getUser env token
                 in (case (authError auth, user auth) of
                       (None, Some uid) \<Rightarrow>
                         (case json req of
                            Malformed \<Rightarrow> caught SyntaxError None
                          | Json None \<Rightarrow> caught (Error ''No CSV content provided'') None
                          | Json (Some csvContent) \<Rightarrow>
                              (if csvContent = [] then
                                 caught (Error ''No CSV content provided'') None
                               else
                                 (case parseCSV_permissive csvContent of
                                    Inl e \<Rightarrow> caught e None
                                  | Inr csvRows \<Rightarrow>
                                      (case mapRows permissiveUser 0 csvRows of
                                         Inl e \<Rightarrow> caught e None
                                       | Inr generatedUsers \<Rightarrow>
                                           store env uid generatedUsers))))
                     | _ \<Rightarrow> caught (Error ''Unauthorized'') None)))))"

section \<open>Notions used to state the properties\<close>


text \<open>The answers of the services for a caller who is authenticated and has no admin role,
  and a request with a well-formed CSV of one data row.\<close>

definition nonAdminServices :: Services where
  "nonAdminServices =
     \<lparr>getUser = (\<lambda>token. \<lparr>user = Some ''user-1'', authError = None\<rparr>),
      selectAdminRole = (\<lambda>uid. \<lparr>userRole = None, roleError = None\<rparr>),
      insertImported = (\<lambda>records. None),
      randomValues = (\<lambda>k i. 0)\<rparr>"

definition sampleRequest :: Request where
  "sampleRequest =
     \<lparr>httpMethod = ''POST'', authorization = Some ''Bearer token'',
      json = Json (Some (''name,postal_code,birthday'' @ [CHR 0x0A]
                         @ ''John Smith,12345,1990-01-02''))\<rparr>"

text \<open>A CSV with a header line and \<open>n\<close> equal data lines.\<close>

definition repeatedCSV :: "nat \<Rightarrow> string" where
  "repeatedCSV n = ''name,postal,birth'' @ concat (replicate n (CHR 0x0A # ''Ann,123,2000-01-02''))"

text \<open>What the strict loop does with one data line, used to state its result: the fields
  of the line, the row built from them, whether the three validators accept it, and the
  message recorded when they do not.\<close>

definition lineValues :: "string \<Rightarrow> string list" where
  "lineValues l = map sanitizeCSVValue (split_on (CHR '','') (trim l))"

definition rowOf :: "nat \<Rightarrow> nat \<Rightarrow> nat \<Rightarrow> string \<Rightarrow> CSVRow" where
  "rowOf ni pi bi l =
     \<lparr>name = nth_opt (lineValues l) ni, postal_code = nth_opt (lineValues l) pi,
      birthday = nth_opt (lineValues l) bi\<rparr>"

definition rowValid :: "nat \<Rightarrow> CSVRow \<Rightarrow> bool" where
  "rowValid maxYear r =
     (valid (validateName (name r)) \<and> valid (validatePostalCode (postal_code r))
      \<and> valid (validateBirthday maxYear (birthday r)))"

definition rowError :: "nat \<Rightarrow> CSVRow \<Rightarrow> string" where
  "rowError maxYear r =
     (if \<not> valid (validateName (name r)) then interp (error (validateName (name r)))
      else if \<not> valid (validatePostalCode (postal_code r))
        then interp (error (validatePostalCode (postal_code r)))
      else interp (error (validateBirthday maxYear (birthday r))))"

definition lineKept :: "nat \<Rightarrow> nat \<Rightarrow> nat \<Rightarrow> nat \<Rightarrow> string \<Rightarrow> bool" where
  "lineKept maxYear ni pi bi l = (trim l \<noteq> [] \<and> rowValid maxYear (rowOf ni pi bi l))"

definition lineRejected :: "nat \<Rightarrow> nat \<Rightarrow> nat \<Rightarrow> nat \<Rightarrow> string \<Rightarrow> bool" where
  "lineRejected maxYear ni pi bi l = (trim l \<noteq> [] \<and> \<not> rowValid maxYear (rowOf ni pi bi l))"

fun rowErrors :: "nat \<Rightarrow> nat \<Rightarrow> nat \<Rightarrow> nat \<Rightarrow> nat \<Rightarrow> string list \<Rightarrow> string list" where
  "rowErrors maxYear ni pi bi i [] = []"
| "rowErrors maxYear ni pi bi i (l # ls) =
     (if lineRejected maxYear ni pi bi l
      then [''Row '' @ show_nat i @ '': '' @ rowError maxYear (rowOf ni pi bi l)] else [])
     @ rowErrors maxYear ni pi bi (Suc i) ls"

text \<open>The year of a birthday in the format YYYY-MM-DD.\<close>

definition birthYear :: "string \<Rightarrow> nat" where
  "birthYear b = digits_value (take 4 b)"

text \<open>A row whose birthday has the format YYYY-MM-DD and a year outside
  \<open>[minYear, maxYear]\<close>.\<close>

definition yearOutOfRange :: "nat \<Rightarrow> CSVRow \<Rightarrow> bool" where
  "yearOutOfRange maxYear r =
     (case birthday r of
        None \<Rightarrow> False
      | Some b \<Rightarrow> birthday_pattern b \<and> (birthYear b < minYear \<or> maxYear < birthYear b))"

text \<open>The batch-level checks of the strict parseCSV that come before the header is read:
  size, at least two non-blank lines, row count.\<close>

definition limitsPassed :: "string \<Rightarrow> bool" where
  "limitsPassed csvContent =
     (length csvContent \<le> maxFileSize
      \<and> 2 \<le> length (nonBlankLines csvContent)
      \<and> length (nonBlankLines csvContent) - 1 \<le> maxRows)"

text \<open>The rows the strict loop keeps and the messages it records, for resolved column
  positions and the non-blank lines of the content.\<close>

definition keptRows :: "nat \<Rightarrow> nat \<Rightarrow> nat \<Rightarrow> nat \<Rightarrow> string list \<Rightarrow> CSVRow list" where
  "keptRows maxYear ni pi bi lines =
     map (rowOf ni pi bi) (filter (lineKept maxYear ni pi bi) (drop 1 lines))"

definition recordedErrors :: "nat \<Rightarrow> nat \<Rightarrow> nat \<Rightarrow> nat \<Rightarrow> string list \<Rightarrow> string list" where
  "recordedErrors maxYear ni pi bi lines = rowErrors maxYear ni pi bi 1 (drop 1 lines)"

text \<open>Sample inputs: a CSV with one valid row and one row born in 1850; the same rows under
  a header that names no birthday column; a CSV whose first data line is born in 1850,
  followed by \<open>n\<close> valid lines.\<close>

definition sampleCSV :: string where
  "sampleCSV = ''name,zip,dob'' @ [CHR 0x0A] @ ''John Smith,12345,1990-01-02''
               @ [CHR 0x0A] @ ''Jane,123,1850-01-01''"

definition noBirthdayCSV :: string where
  "noBirthdayCSV = ''name,zip,city'' @ [CHR 0x0A] @ ''John Smith,12345,Paris''"

definition badFirstCSV :: "nat \<Rightarrow> string" where
  "badFirstCSV n = (''name,postal,birth'' @ [CHR 0x0A] @ ''Jane,123,1850-01-01'')
                   @ concat (replicate n (CHR 0x0A # ''Ann,123,2000-01-02''))"

text \<open>The column positions that each variant resolves from the header line of a content.\<close>

definition strictIndices :: "string \<Rightarrow> nat option \<times> nat option \<times> nat option" where
  "strictIndices csvContent =
     (let headers = parseHeaders (nonBlankLines csvContent ! 0)
      in (findNameIndex headers, findPostalIndex headers, findBirthdayIndex headers))"

definition permissiveIndices :: "string \<Rightarrow> nat option \<times> nat option \<times> nat option" where
  "permissiveIndices csvContent =
     (let headers = map (\<lambda>h. toLowerCase (trim h))
                      (split_on (CHR '','') (split_on (CHR 0x0A) (trim csvContent) ! 0))
      in (findIndex (\<lambda>h. includes_str h ''name'') headers,
          findIndex (\<lambda>h. includes_str h ''postal'') headers,
          findIndex (\<lambda>h. includes_str h ''birth'') headers))"

text \<open>The email as the specification words it: the name lowercased, the characters other
  than letters and white space stripped, the whitespace-separated words joined by a period,
  the domain appended. \<open>wordsOf\<close> gives the maximal runs of characters that are not white
  space.\<close>

function wordsOf :: "string \<Rightarrow> string list" where
  "wordsOf [] = []"
| "wordsOf (c # cs) =
     (if is_ws c then wordsOf cs
      else (c # takeWhile (\<lambda>x. \<not> is_ws x) cs) # wordsOf (dropWhile (\<lambda>x. \<not> is_ws x) cs))"
  by pat_completeness auto
termination
  by (relation "measure length") (auto simp: le_imp_less_Suc length_dropWhile_le)

definition generateEmail_spec :: "string \<Rightarrow> string" where
  "generateEmail_spec nm =
     join ''.'' (wordsOf (filter (\<lambda>c. is_lower_az c \<or> is_ws c) (toLowerCase nm)))
     @ ''@company.com''"

text \<open>What the strict generateEmail has after its stripping step, and the period that
  stands for white space left at the start or at the end of it.\<close>

definition strippedName :: "string \<Rightarrow> string" where
  "strippedName nm = filter (\<lambda>c. is_lower_az c \<or> is_ws c) (trim (toLowerCase nm))"

definition leadingPeriod :: "string \<Rightarrow> string" where
  "leadingPeriod nm =
     (if strippedName nm \<noteq> [] \<and> is_ws (hd (strippedName nm)) then ''.'' else [])"

definition trailingPeriod :: "string \<Rightarrow> string" where
  "trailingPeriod nm =
     (if wordsOf (strippedName nm) \<noteq> [] \<and> is_ws (last (strippedName nm)) then ''.'' else [])"

text \<open>A CSV whose one data line has a name that ends in a hyphen after a blank.\<close>

definition hyphenCSV :: string where
  "hyphenCSV = ''name,zip,dob'' @ [CHR 0x0A] @ ''John -,12345,1990-01-02''"

section \<open>Lemmas on the string primitives\<close>

lemma split_on_not_Nil: "split_on sep s \<noteq> []"
  by (induction s) (auto split: list.splits)

lemma split_on_no_sep: "sep \<notin> set s \<Longrightarrow> split_on sep s = [s]"
  by (induction s) auto

lemma split_on_append_sep:
  "sep \<notin> set xs \<Longrightarrow> split_on sep (xs @ sep # ys) = xs # split_on sep ys"
  by (induction xs) auto

lemma split_on_repeated:
  assumes "sep \<notin> set h" "sep \<notin> set r"
  shows "split_on sep (h @ concat (replicate n (sep # r))) = h # replicate n r"
  using assms
proof (induction n arbitrary: h)
  case 0
  then show ?case by (simp add: split_on_no_sep)
next
  case (Suc n)
  have "split_on sep (h @ concat (replicate (Suc n) (sep # r)))
        = split_on sep (h @ sep # (r @ concat (replicate n (sep # r))))"
    by simp
  also have "\<dots> = h # split_on sep (r @ concat (replicate n (sep # r)))"
    using Suc.prems by (rule_tac split_on_append_sep) simp
  also have "\<dots> = h # r # replicate n r"
    using Suc.IH[of r] Suc.prems by simp
  finally show ?case by (simp add: replicate_app_Cons_same)
qed

lemma trim_Nil [simp]: "trim [] = []"
  by (simp add: trim_def)

lemma trim_fixed:
  assumes "s \<noteq> []" "\<not> is_ws (hd s)" "\<not> is_ws (last s)"
  shows "trim s = s"
proof -
  have "dropWhile is_ws s = s" using assms by (cases s) auto
  moreover have "dropWhile is_ws (rev s) = rev s"
    using assms by (cases "rev s") (auto simp: last_rev[symmetric] hd_rev)
  ultimately show ?thesis by (simp add: trim_def)
qed

section \<open>The password generator\<close>











section \<open>Sanitising a value\<close>

text \<open>
  C9 fails on the code: only one leading formula character is removed, so a value that
  starts with two of them still starts with one after sanitising.
\<close>

theorem sanitizeCSVValue_keeps_second_formula_char:
  "sanitizeCSVValue ''==1+1'' = ''=1+1'' \<and> startsWith (sanitizeCSVValue ''==1+1'') ''=''"
  by code_simp

section \<open>The permissive parseCSV\<close>

text \<open>
  C10 fails on the code: the permissive loop keeps a line with at least three fields, whatever
  the resolved column positions are. With four header columns and a data line of three
  fields the birthday index is out of range and the returned row has an undefined birthday.
\<close>

theorem parseCSV_permissive_undefined_field:
  "parseCSV_permissive (''id,name,postal,birth'' @ [CHR 0x0A] @ ''1,John,12345'')
   = Inr [\<lparr>name = Some ''John'', postal_code = Some ''12345'', birthday = None\<rparr>]"
  by code_simp

lemma rowLoop_permissive_repeated:
  "rowLoop_permissive 0 1 2 (replicate n ''Ann,123,2000-01-02'') rows
   = rows @ replicate n \<lparr>name = Some ''Ann'', postal_code = Some ''123'',
                           birthday = Some ''2000-01-02''\<rparr>"
proof (induction n arbitrary: rows)
  case 0
  then show ?case by simp
next
  case (Suc n)
  have v: "map (\<lambda>v. stripQuotes (trim v)) (split_on (CHR '','') ''Ann,123,2000-01-02'')
           = [''Ann'', ''123'', ''2000-01-02'']"
    by code_simp
  have step: "rowLoop_permissive 0 1 2 (''Ann,123,2000-01-02'' # ls) acc
              = rowLoop_permissive 0 1 2 ls
                  (acc @ [\<lparr>name = Some ''Ann'', postal_code = Some ''123'',
                            birthday = Some ''2000-01-02''\<rparr>])" for ls acc
    by (simp only: rowLoop_permissive.simps v Let_def) (simp add: nth_opt_def)
  show ?case
    by (simp only: replicate_Suc step Suc.IH) simp
qed

lemma last_repeated:
  "r \<noteq> [] \<Longrightarrow> last (h @ concat (replicate (Suc n) (sep # r))) = last r"
  by (induction n) auto

lemma trim_repeatedCSV: "trim (repeatedCSV (Suc n)) = repeatedCSV (Suc n)"
proof (rule trim_fixed)
  show "repeatedCSV (Suc n) \<noteq> []" by (simp add: repeatedCSV_def)
  show "\<not> is_ws (hd (repeatedCSV (Suc n)))"
    by (simp add: repeatedCSV_def is_ws_def code_def)
  have "last (repeatedCSV (Suc n)) = CHR ''2''"
    unfolding repeatedCSV_def by (subst last_repeated) simp_all
  then show "\<not> is_ws (last (repeatedCSV (Suc n)))"
    by (simp add: is_ws_def code_def)
qed

lemma lines_repeatedCSV:
  "split_on (CHR 0x0A) (repeatedCSV n) = ''name,postal,birth'' # replicate n ''Ann,123,2000-01-02''"
  unfolding repeatedCSV_def by (rule split_on_repeated) simp_all

lemma headers_permissive_sample:
  "map (\<lambda>h. toLowerCase (trim h)) (split_on (CHR '','') ''name,postal,birth'')
   = [''name'', ''postal'', ''birth'']"
  by code_simp

lemma indices_permissive_sample:
  "findIndex (\<lambda>h. includes_str h ''name'') [''name'', ''postal'', ''birth''] = Some 0"
  "findIndex (\<lambda>h. includes_str h ''postal'') [''name'', ''postal'', ''birth''] = Some 1"
  "findIndex (\<lambda>h. includes_str h ''birth'') [''name'', ''postal'', ''birth''] = Some 2"
  by code_simp+

lemma parseCSV_permissive_repeated:
  "parseCSV_permissive (repeatedCSV (Suc n))
   = Inr (replicate (Suc n) \<lparr>name = Some ''Ann'', postal_code = Some ''123'',
                               birthday = Some ''2000-01-02''\<rparr>)"
proof -
  have "parseCSV_permissive (repeatedCSV (Suc n))
        = Inr (rowLoop_permissive 0 1 2 (replicate (Suc n) ''Ann,123,2000-01-02'') [])"
    unfolding parseCSV_permissive_def trim_repeatedCSV lines_repeatedCSV Let_def
    by (simp only: nth_Cons_0 headers_permissive_sample indices_permissive_sample)
      (simp del: replicate_Suc)
  then show ?thesis
    by (simp only: rowLoop_permissive_repeated append_Nil)
qed

lemma nonBlankLines_repeatedCSV:
  "nonBlankLines (repeatedCSV (Suc n)) = ''name,postal,birth'' # replicate (Suc n) ''Ann,123,2000-01-02''"
proof -
  have a: "trim ''name,postal,birth'' \<noteq> []" by code_simp
  have b: "trim ''Ann,123,2000-01-02'' \<noteq> []" by code_simp
  show ?thesis
    unfolding nonBlankLines_def trim_repeatedCSV lines_repeatedCSV
    using a b by (simp del: replicate_Suc)
qed

lemma length_repeatedCSV: "length (repeatedCSV n) = 17 + 19 * n"
  by (induction n) (simp_all add: repeatedCSV_def)

lemma parseCSV_rejects_repeated:
  "parseCSV_trace maxYear (repeatedCSV 1001)
   = (Inl (Error ''CSV has too many rows. Maximum is 1000 rows''), [])"
proof -
  have "show_nat maxRows = ''1000''" by code_simp
  then show ?thesis
    unfolding parseCSV_trace_def
    using nonBlankLines_repeatedCSV[of 1000]
    by (simp add: length_repeatedCSV maxFileSize_def maxRows_def)
qed

lemma parseCSV_enforces_limits:
  assumes "length csvContent > maxFileSize \<or> length (nonBlankLines csvContent) - 1 > maxRows"
  shows "\<exists>msg. parseCSV_trace maxYear csvContent = (Inl (Error msg), [])"
  using assms unfolding parseCSV_trace_def by (auto simp: Let_def)

text \<open>
  C6 fails on the permissive variant: it has no size check and no row-count check, and returns
  the 1001 rows of a CSV with 1001 data lines. The strict variant rejects the same input
  (\<open>parseCSV_rejects_repeated\<close>) and every input over either limit
  (\<open>parseCSV_enforces_limits\<close>).
\<close>

theorem parseCSV_permissive_no_row_limit:
  "parseCSV_permissive (repeatedCSV 1001)
   = Inr (replicate 1001 \<lparr>name = Some ''Ann'', postal_code = Some ''123'',
                            birthday = Some ''2000-01-02''\<rparr>)
   \<and> length (replicate 1001 \<lparr>name = Some ''Ann'', postal_code = Some ''123'',
                            birthday = Some ''2000-01-02''\<rparr>) > maxRows"
  using parseCSV_permissive_repeated[of 1000] by (simp add: maxRows_def)

section \<open>The request handlers and the role of the caller\<close>

lemma serve_forbidden_without_admin_role:
  assumes "httpMethod req \<noteq> ''OPTIONS''"
    and "authorization req = Some authHeader" and "authHeader \<noteq> []"
    and "getUser env (replaceFirst ''Bearer '' [] authHeader) = \<lparr>user = Some uid, authError = None\<rparr>"
    and "selectAdminRole env uid = \<lparr>userRole = None, roleError = None\<rparr>"
  shows "serve env maxYear req
         = \<lparr>response = \<lparr>status = 403, body = ErrorMessage ''Unauthorized: Admin role required''\<rparr>,
            insertCall = None\<rparr>"
  using assms by (simp add: serve_def)

lemma serve_sample_forbidden:
  "serve nonAdminServices maxYear sampleRequest
   = \<lparr>response = \<lparr>status = 403, body = ErrorMessage ''Unauthorized: Admin role required''\<rparr>,
      insertCall = None\<rparr>"
  by (rule serve_forbidden_without_admin_role[where authHeader = "''Bearer token''" and uid = "''user-1''"])
     (simp_all add: sampleRequest_def nonAdminServices_def)

text \<open>
  C2 fails on the permissive handler: it never asks for the role of the caller. For a caller
  who is authenticated and has no admin role it parses the CSV, calls the insert and answers
  200. The strict handler answers 403 for the same caller and request, with no insert and
  whatever the body is (\<open>serve_forbidden_without_admin_role\<close>, \<open>serve_sample_forbidden\<close>).
\<close>

theorem serve_permissive_accepts_non_admin:
  "userRole (selectAdminRole nonAdminServices ''user-1'') = None
   \<and> serve_permissive nonAdminServices sampleRequest
     = \<lparr>response =
          \<lparr>status = 200,
           body = Success
                    [\<lparr>full_name = Some ''John Smith'', GeneratedUser.postal_code = Some ''12345'',
                      GeneratedUser.birthday = Some ''1990-01-02'',
                      generated_email = ''john.smith@company.com'',
                      generated_password = ''JS23451990!''\<rparr>] 1\<rparr>,
        insertCall =
          Some [\<lparr>full_name = Some ''John Smith'', GeneratedUser.postal_code = Some ''12345'',
                 GeneratedUser.birthday = Some ''1990-01-02'',
                 generated_email = ''john.smith@company.com'',
                 generated_password = ''JS23451990!'', imported_by = ''user-1''\<rparr>]\<rparr>"
  by code_simp

section \<open>The strict row loop\<close>

lemma rowLoop_step:
  "rowLoop maxYear ni pi bi i (l # ls) (rows, errors) =
     rowLoop maxYear ni pi bi (Suc i) ls
       (rows @ (if lineKept maxYear ni pi bi l then [rowOf ni pi bi l] else []),
        errors @ (if lineRejected maxYear ni pi bi l
                  then [''Row '' @ show_nat i @ '': '' @ rowError maxYear (rowOf ni pi bi l)]
                  else []))"
  by (simp add: Let_def lineKept_def lineRejected_def rowValid_def rowOf_def lineValues_def
      rowError_def)

lemma rowLoop_result:
  "rowLoop maxYear ni pi bi i ls (rows, errors) =
     (rows @ map (rowOf ni pi bi) (filter (lineKept maxYear ni pi bi) ls),
      errors @ rowErrors maxYear ni pi bi i ls)"
proof (induction ls arbitrary: i rows errors)
  case Nil
  then show ?case by simp
next
  case (Cons l ls)
  show ?case
    by (simp only: rowLoop_step Cons.IH) simp
qed

lemma digit_not_special:
  assumes "is_digit c"
  shows "c \<noteq> CHR ''-''" "c \<noteq> CHR ''+''" "\<not> is_ws c"
  using assms by (auto simp: is_digit_def is_ws_def code_def)

lemma birthday_patternE:
  assumes "birthday_pattern b"
  obtains y1 y2 y3 y4 m1 m2 d1 d2 where
    "b = [y1, y2, y3, y4, CHR ''-'', m1, m2, CHR ''-'', d1, d2]"
    "is_digit y1" "is_digit y2" "is_digit y3" "is_digit y4"
    "is_digit m1" "is_digit m2" "is_digit d1" "is_digit d2"
  using assms unfolding birthday_pattern_def
  by (simp split: list.splits)

lemma split_on_birthday:
  assumes d: "is_digit y1" "is_digit y2" "is_digit y3" "is_digit y4"
      "is_digit m1" "is_digit m2" "is_digit d1" "is_digit d2"
  shows "split_on (CHR ''-'') [y1, y2, y3, y4, CHR ''-'', m1, m2, CHR ''-'', d1, d2]
           = [[y1, y2, y3, y4], [m1, m2], [d1, d2]]"
proof -
  have "split_on (CHR ''-'') ([y1, y2, y3, y4] @ CHR ''-'' # ([m1, m2] @ CHR ''-'' # [d1, d2]))
        = [y1, y2, y3, y4] # split_on (CHR ''-'') ([m1, m2] @ CHR ''-'' # [d1, d2])"
    using d by (intro split_on_append_sep) (auto dest: digit_not_special(1))
  also have "split_on (CHR ''-'') ([m1, m2] @ CHR ''-'' # [d1, d2])
             = [m1, m2] # split_on (CHR ''-'') [d1, d2]"
    using d by (intro split_on_append_sep) (auto dest: digit_not_special(1))
  also have "split_on (CHR ''-'') [d1, d2] = [[d1, d2]]"
    using d by (intro split_on_no_sep) (auto dest: digit_not_special(1))
  finally show ?thesis
    by (simp only: append_Cons append_Nil)
qed

lemma birthday_year_parsed:
  assumes "birthday_pattern b"
  shows "parseInt10 (split_on (CHR ''-'') b ! 0) = Some (int (birthYear b))"
proof (rule birthday_patternE[OF assms])
  fix y1 y2 y3 y4 m1 m2 d1 d2
  assume b: "b = [y1, y2, y3, y4, CHR ''-'', m1, m2, CHR ''-'', d1, d2]"
    and d: "is_digit y1" "is_digit y2" "is_digit y3" "is_digit y4"
      "is_digit m1" "is_digit m2" "is_digit d1" "is_digit d2"
  note s = split_on_birthday[OF d]
  have t: "take 4 [y1, y2, y3, y4, CHR ''-'', m1, m2, CHR ''-'', d1, d2] = [y1, y2, y3, y4]"
    by simp
  have p: "parseInt10 [y1, y2, y3, y4] = Some (int (digits_value [y1, y2, y3, y4]))"
    using d(1-4) by (simp add: parseInt10_def Let_def startsWith_def digit_not_special)
  show ?thesis
    by (simp only: b s t birthYear_def nth_Cons_0 p)
qed

lemma validateName_valid_iff:
  "valid (validateName x)
   \<longleftrightarrow> (\<exists>n. x = Some n \<and> n \<noteq> [] \<and> length n \<le> 100 \<and> list_all name_class n)"
  by (cases x) (auto simp: validateName_def ok_def invalid_def name_maxLength_def name_pattern_def)

lemma validatePostalCode_valid_iff:
  "valid (validatePostalCode x)
   \<longleftrightarrow> (\<exists>p. x = Some p \<and> p \<noteq> [] \<and> length p \<le> 20 \<and> list_all postal_class p)"
  by (cases x)
    (auto simp: validatePostalCode_def ok_def invalid_def postal_maxLength_def postal_pattern_def)

lemma birthday_pattern_not_Nil: "birthday_pattern b \<Longrightarrow> b \<noteq> []"
  by (auto simp: birthday_pattern_def)

lemma validateBirthday_valid_iff:
  "valid (validateBirthday maxYear x)
   \<longleftrightarrow> (\<exists>b. x = Some b \<and> birthday_pattern b \<and> 1900 \<le> birthYear b \<and> birthYear b \<le> maxYear)"
proof (cases x)
  case None
  then show ?thesis by (simp add: validateBirthday_def invalid_def)
next
  case (Some b)
  show ?thesis
  proof (cases "birthday_pattern b")
    case True
    then show ?thesis
      using birthday_year_parsed[OF True] birthday_pattern_not_Nil[OF True]
      by (auto simp: Some validateBirthday_def ok_def invalid_def minYear_def)
  next
    case False
    then show ?thesis
      by (simp add: Some validateBirthday_def invalid_def)
  qed
qed

lemma parseCSV_Inr_rows:
  assumes "parseCSV maxYear csvContent = Inr rows"
  shows "\<exists>ni pi bi. rows = map (rowOf ni pi bi)
            (filter (lineKept maxYear ni pi bi) (drop 1 (nonBlankLines csvContent)))"
  using assms unfolding parseCSV_def parseCSV_trace_def
  by (auto simp: Let_def rowLoop_result split: if_splits option.splits)

lemma parseCSV_trace_passed:
  assumes "limitsPassed csvContent"
    and "findNameIndex (parseHeaders (nonBlankLines csvContent ! 0)) = Some ni"
    and "findPostalIndex (parseHeaders (nonBlankLines csvContent ! 0)) = Some pi"
    and "findBirthdayIndex (parseHeaders (nonBlankLines csvContent ! 0)) = Some bi"
  shows "parseCSV_trace maxYear csvContent =
           (if keptRows maxYear ni pi bi (nonBlankLines csvContent) = []
            then Inl (Error (noRowsMessage
                               (recordedErrors maxYear ni pi bi (nonBlankLines csvContent))))
            else Inr (keptRows maxYear ni pi bi (nonBlankLines csvContent)),
            recordedErrors maxYear ni pi bi (nonBlankLines csvContent))"
  unfolding parseCSV_trace_def using assms
  by (simp add: limitsPassed_def Let_def rowLoop_result keptRows_def recordedErrors_def)

lemma sample_lines:
  "nonBlankLines sampleCSV
   = [''name,zip,dob'', ''John Smith,12345,1990-01-02'', ''Jane,123,1850-01-01'']"
  by code_simp

lemma sample_limits: "limitsPassed sampleCSV"
proof -
  have "length sampleCSV \<le> maxFileSize"
    by (simp add: sampleCSV_def maxFileSize_def)
  then show ?thesis
    by (simp add: limitsPassed_def sample_lines maxRows_def)
qed

lemma sample_headers: "parseHeaders ''name,zip,dob'' = [''name'', ''zip'', ''dob'']"
  by code_simp

lemma sample_indices:
  "findNameIndex [''name'', ''zip'', ''dob''] = Some 0"
  "findPostalIndex [''name'', ''zip'', ''dob''] = Some 1"
  "findBirthdayIndex [''name'', ''zip'', ''dob''] = Some 2"
  by code_simp+

lemma sample_kept:
  "keptRows 2026 0 1 2 [''name,zip,dob'', ''John Smith,12345,1990-01-02'', ''Jane,123,1850-01-01'']
   = [\<lparr>name = Some ''John Smith'', postal_code = Some ''12345'', birthday = Some ''1990-01-02''\<rparr>]"
  by code_simp

lemma sample_errors:
  "recordedErrors 2026 0 1 2
     [''name,zip,dob'', ''John Smith,12345,1990-01-02'', ''Jane,123,1850-01-01'']
   = [''Row 2: Birth year must be between 1900 and 2026'']"
  by code_simp

lemma sample_trace:
  "parseCSV_trace 2026 sampleCSV
   = (Inr [\<lparr>name = Some ''John Smith'', postal_code = Some ''12345'',
              birthday = Some ''1990-01-02''\<rparr>],
      [''Row 2: Birth year must be between 1900 and 2026''])"
proof -
  have i: "findNameIndex (parseHeaders (nonBlankLines sampleCSV ! 0)) = Some 0"
    "findPostalIndex (parseHeaders (nonBlankLines sampleCSV ! 0)) = Some 1"
    "findBirthdayIndex (parseHeaders (nonBlankLines sampleCSV ! 0)) = Some 2"
    by (simp_all only: sample_lines nth_Cons_0 sample_headers sample_indices)
  show ?thesis
    by (simp only: parseCSV_trace_passed[OF sample_limits i] sample_lines sample_kept
        sample_errors) simp
qed

lemma rowErrors_mem:
  assumes "k < length ls" and "lineRejected maxYear ni pi bi (ls ! k)"
  shows "(''Row '' @ show_nat (i + k) @ '': '' @ rowError maxYear (rowOf ni pi bi (ls ! k)))
         \<in> set (rowErrors maxYear ni pi bi i ls)"
  using assms
proof (induction ls arbitrary: i k)
  case Nil
  then show ?case by simp
next
  case (Cons l ls)
  show ?case
  proof (cases k)
    case 0
    with Cons.prems show ?thesis by simp
  next
    case (Suc j)
    with Cons.prems have "j < length ls" "lineRejected maxYear ni pi bi (ls ! j)"
      by simp_all
    from Cons.IH[OF this, of "Suc i"] show ?thesis
      by (simp add: Suc)
  qed
qed

lemma nonBlankLines_nonblank: "l \<in> set (nonBlankLines csvContent) \<Longrightarrow> trim l \<noteq> []"
  by (simp add: nonBlankLines_def)

lemma yearOutOfRange_invalid:
  assumes "yearOutOfRange maxYear r"
  shows "\<not> rowValid maxYear r"
proof -
  from assms obtain b where b: "birthday r = Some b" "birthday_pattern b"
    "birthYear b < minYear \<or> maxYear < birthYear b"
    by (auto simp: yearOutOfRange_def split: option.splits)
  then have "\<not> valid (validateBirthday maxYear (birthday r))"
    by (auto simp: validateBirthday_valid_iff minYear_def)
  then show ?thesis by (simp add: rowValid_def)
qed

lemma keptRows_valid: "r \<in> set (keptRows maxYear ni pi bi lines) \<Longrightarrow> rowValid maxYear r"
  by (auto simp: keptRows_def lineKept_def)

lemma data_line:
  assumes "1 \<le> k" "k < length lines"
  shows "drop 1 lines ! (k - 1) = lines ! k" "k - 1 < length (drop 1 lines)"
  using assms by simp_all

lemma parseCSV_rejects_unpassed:
  assumes "\<not> limitsPassed csvContent"
  shows "parseCSV_trace maxYear csvContent
           = (Inl (Error ''CSV file is too large. Maximum size is 5MB''), [])
         \<or> parseCSV_trace maxYear csvContent
           = (Inl (Error ''CSV must contain headers and at least one data row''), [])
         \<or> parseCSV_trace maxYear csvContent
           = (Inl (Error ''CSV has too many rows. Maximum is 1000 rows''), [])"
proof -
  have "maxFileSize div (1024 * 1024) = 5" by (simp add: maxFileSize_def)
  moreover have "show_nat 5 = ''5''" by code_simp
  moreover have "show_nat 1000 = ''1000''" by code_simp
  ultimately show ?thesis
    using assms unfolding parseCSV_trace_def limitsPassed_def
    by (auto simp: Let_def maxRows_def)
qed

lemma headerOnly_lines: "nonBlankLines ''id,city'' = [''id,city'']"
  by code_simp

lemma headerOnly_limits: "\<not> limitsPassed ''id,city''"
  by (simp add: limitsPassed_def headerOnly_lines)

text \<open>
  C1. Every row that the strict parseCSV returns passes the three validators: its name is
  non-empty, has at most 100 characters and only characters of the name class; its postal
  code is non-empty, has at most 20 characters and only characters of the postal class; its
  birthday has the format YYYY-MM-DD and a year from 1900 to \<open>maxYear\<close>, the current year.
\<close>

theorem parseCSV_rows_pass_validation:
  assumes "parseCSV maxYear csvContent = Inr rows" and "r \<in> set rows"
  shows "valid (validateName (name r)) \<and> valid (validatePostalCode (postal_code r))
         \<and> valid (validateBirthday maxYear (birthday r))
         \<and> (\<exists>n p b. name r = Some n \<and> n \<noteq> [] \<and> length n \<le> 100 \<and> list_all name_class n
                \<and> postal_code r = Some p \<and> p \<noteq> [] \<and> length p \<le> 20 \<and> list_all postal_class p
                \<and> birthday r = Some b \<and> birthday_pattern b
                \<and> 1900 \<le> birthYear b \<and> birthYear b \<le> maxYear)"
proof -
  from parseCSV_Inr_rows[OF assms(1)] assms(2)
  have v: "rowValid maxYear r" by (auto simp: lineKept_def)
  then have "valid (validateName (name r))" "valid (validatePostalCode (postal_code r))"
    "valid (validateBirthday maxYear (birthday r))"
    by (simp_all add: rowValid_def)
  then show ?thesis
    using validateName_valid_iff[of "name r"] validatePostalCode_valid_iff[of "postal_code r"]
      validateBirthday_valid_iff[of maxYear "birthday r"]
    by auto
qed

theorem parseCSV_rows_pass_validation_witness:
  "parseCSV 2026 sampleCSV
     = Inr [\<lparr>name = Some ''John Smith'', postal_code = Some ''12345'',
             birthday = Some ''1990-01-02''\<rparr>]
   \<and> valid (validateName (Some ''John Smith''))
   \<and> valid (validatePostalCode (Some ''12345''))
   \<and> valid (validateBirthday 2026 (Some ''1990-01-02''))
   \<and> birthday_pattern ''1990-01-02'' \<and> birthYear ''1990-01-02'' \<le> 2026"
proof -
  have h: "parseCSV 2026 sampleCSV
           = Inr [\<lparr>name = Some ''John Smith'', postal_code = Some ''12345'',
                   birthday = Some ''1990-01-02''\<rparr>]"
    by (simp add: parseCSV_def sample_trace)
  from parseCSV_rows_pass_validation[OF h, of "\<lparr>name = Some ''John Smith'',
      postal_code = Some ''12345'', birthday = Some ''1990-01-02''\<rparr>"]
  show ?thesis using h by simp
qed

text \<open>
  C7, as the code has it. Take a CSV that passes the batch-level checks (size, at least two
  non-blank lines, row count) and whose header resolves the three columns. The call returns
  the rows of the data lines that pass the three validators, in input order, and throws only
  when there is none. A data line is among the returned rows exactly when its row is valid.
  A data line \<open>k\<close> whose birthday has the format YYYY-MM-DD and a year outside
  \<open>[1900, maxYear]\<close> is not returned, and the errors array holds its entry
  \<open>Row k: ...\<close> with the message of the first validator that rejects it. A content
  that fails a batch-level check is rejected as a whole, with an empty errors array.
\<close>

theorem parseCSV_skips_invalid_rows:
  assumes "limitsPassed csvContent"
    and "findNameIndex (parseHeaders (nonBlankLines csvContent ! 0)) = Some ni"
    and "findPostalIndex (parseHeaders (nonBlankLines csvContent ! 0)) = Some pi"
    and "findBirthdayIndex (parseHeaders (nonBlankLines csvContent ! 0)) = Some bi"
  shows "parseCSV maxYear csvContent =
           (if keptRows maxYear ni pi bi (nonBlankLines csvContent) = []
            then Inl (Error (noRowsMessage
                               (recordedErrors maxYear ni pi bi (nonBlankLines csvContent))))
            else Inr (keptRows maxYear ni pi bi (nonBlankLines csvContent)))
         \<and> snd (parseCSV_trace maxYear csvContent)
             = recordedErrors maxYear ni pi bi (nonBlankLines csvContent)
         \<and> (\<forall>k. 1 \<le> k \<and> k < length (nonBlankLines csvContent) \<longrightarrow>
               (rowOf ni pi bi (nonBlankLines csvContent ! k)
                  \<in> set (keptRows maxYear ni pi bi (nonBlankLines csvContent))
                \<longleftrightarrow> rowValid maxYear (rowOf ni pi bi (nonBlankLines csvContent ! k))))
         \<and> (\<forall>k. 1 \<le> k \<and> k < length (nonBlankLines csvContent)
                  \<and> yearOutOfRange maxYear (rowOf ni pi bi (nonBlankLines csvContent ! k)) \<longrightarrow>
               rowOf ni pi bi (nonBlankLines csvContent ! k)
                  \<notin> set (keptRows maxYear ni pi bi (nonBlankLines csvContent))
               \<and> (''Row '' @ show_nat k @ '': ''
                    @ rowError maxYear (rowOf ni pi bi (nonBlankLines csvContent ! k)))
                  \<in> set (recordedErrors maxYear ni pi bi (nonBlankLines csvContent)))
         \<and> (\<not> limitsPassed other \<longrightarrow>
               (\<exists>msg. parseCSV_trace maxYear other = (Inl (Error msg), [])))"
proof -
  let ?lines = "nonBlankLines csvContent"
  note tr = parseCSV_trace_passed[OF assms, of maxYear]
  have rejected: "\<not> limitsPassed other \<longrightarrow>
               (\<exists>msg. parseCSV_trace maxYear other = (Inl (Error msg), []))"
    using parseCSV_rejects_unpassed[of other maxYear] by blast
  have membership: "rowOf ni pi bi (?lines ! k) \<in> set (keptRows maxYear ni pi bi ?lines)
        \<longleftrightarrow> rowValid maxYear (rowOf ni pi bi (?lines ! k))"
    if k: "1 \<le> k" "k < length ?lines" for k
  proof
    assume "rowOf ni pi bi (?lines ! k) \<in> set (keptRows maxYear ni pi bi ?lines)"
    then show "rowValid maxYear (rowOf ni pi bi (?lines ! k))" by (rule keptRows_valid)
  next
    assume v: "rowValid maxYear (rowOf ni pi bi (?lines ! k))"
    have "?lines ! k \<in> set ?lines" using k by simp
    then have "trim (?lines ! k) \<noteq> []" by (rule nonBlankLines_nonblank)
    with v have "lineKept maxYear ni pi bi (?lines ! k)" by (simp add: lineKept_def)
    moreover have "?lines ! k \<in> set (drop 1 ?lines)"
      using data_line[OF k] by (metis nth_mem)
    ultimately show "rowOf ni pi bi (?lines ! k) \<in> set (keptRows maxYear ni pi bi ?lines)"
      by (simp add: keptRows_def)
  qed
  have recorded: "(''Row '' @ show_nat k @ '': '' @ rowError maxYear (rowOf ni pi bi (?lines ! k)))
         \<in> set (recordedErrors maxYear ni pi bi ?lines)"
    if k: "1 \<le> k" "k < length ?lines" and y: "yearOutOfRange maxYear (rowOf ni pi bi (?lines ! k))"
    for k
  proof -
    have "?lines ! k \<in> set ?lines" using k by simp
    then have "trim (?lines ! k) \<noteq> []" by (rule nonBlankLines_nonblank)
    with yearOutOfRange_invalid[OF y]
    have "lineRejected maxYear ni pi bi (?lines ! k)"
      by (simp add: lineRejected_def)
    then have "lineRejected maxYear ni pi bi (drop 1 ?lines ! (k - 1))"
      by (simp only: data_line(1)[OF k(1,2)])
    from rowErrors_mem[OF data_line(2)[OF k(1,2)] this, of 1]
    show ?thesis using k by (simp add: recordedErrors_def)
  qed
  have "parseCSV maxYear csvContent =
           (if keptRows maxYear ni pi bi ?lines = []
            then Inl (Error (noRowsMessage (recordedErrors maxYear ni pi bi ?lines)))
            else Inr (keptRows maxYear ni pi bi ?lines))"
    by (simp add: parseCSV_def tr)
  moreover have "snd (parseCSV_trace maxYear csvContent) = recordedErrors maxYear ni pi bi ?lines"
    by (simp add: tr)
  ultimately have "parseCSV maxYear csvContent =
           (if keptRows maxYear ni pi bi ?lines = []
            then Inl (Error (noRowsMessage (recordedErrors maxYear ni pi bi ?lines)))
            else Inr (keptRows maxYear ni pi bi ?lines))
         \<and> snd (parseCSV_trace maxYear csvContent) = recordedErrors maxYear ni pi bi ?lines
         \<and> (\<forall>k. 1 \<le> k \<and> k < length ?lines \<longrightarrow>
               (rowOf ni pi bi (?lines ! k) \<in> set (keptRows maxYear ni pi bi ?lines)
                \<longleftrightarrow> rowValid maxYear (rowOf ni pi bi (?lines ! k))))
         \<and> (\<forall>k. 1 \<le> k \<and> k < length ?lines
                  \<and> yearOutOfRange maxYear (rowOf ni pi bi (?lines ! k)) \<longrightarrow>
               rowOf ni pi bi (?lines ! k) \<notin> set (keptRows maxYear ni pi bi ?lines)
               \<and> (''Row '' @ show_nat k @ '': '' @ rowError maxYear (rowOf ni pi bi (?lines ! k)))
                  \<in> set (recordedErrors maxYear ni pi bi ?lines))"
    using membership recorded yearOutOfRange_invalid by blast
  with rejected show ?thesis by blast
qed

theorem parseCSV_skips_invalid_rows_witness:
  "limitsPassed sampleCSV
   \<and> findNameIndex (parseHeaders (nonBlankLines sampleCSV ! 0)) = Some 0
   \<and> findPostalIndex (parseHeaders (nonBlankLines sampleCSV ! 0)) = Some 1
   \<and> findBirthdayIndex (parseHeaders (nonBlankLines sampleCSV ! 0)) = Some 2
   \<and> yearOutOfRange 2026 (rowOf 0 1 2 (nonBlankLines sampleCSV ! 2))
   \<and> rowOf 0 1 2 (nonBlankLines sampleCSV ! 2)
        \<notin> set (keptRows 2026 0 1 2 (nonBlankLines sampleCSV))
   \<and> ''Row 2: Birth year must be between 1900 and 2026''
        \<in> set (recordedErrors 2026 0 1 2 (nonBlankLines sampleCSV))
   \<and> parseCSV 2026 sampleCSV
       = Inr [\<lparr>name = Some ''John Smith'', postal_code = Some ''12345'',
               birthday = Some ''1990-01-02''\<rparr>]
   \<and> \<not> limitsPassed ''id,city''
   \<and> (\<exists>msg. parseCSV_trace 2026 ''id,city'' = (Inl (Error msg), []))"
proof -
  have i: "findNameIndex (parseHeaders (nonBlankLines sampleCSV ! 0)) = Some 0"
    "findPostalIndex (parseHeaders (nonBlankLines sampleCSV ! 0)) = Some 1"
    "findBirthdayIndex (parseHeaders (nonBlankLines sampleCSV ! 0)) = Some 2"
    by (simp_all only: sample_lines nth_Cons_0 sample_headers sample_indices)
  have l2: "nonBlankLines sampleCSV ! 2 = ''Jane,123,1850-01-01''"
    by (simp add: sample_lines)
  have y: "yearOutOfRange 2026 (rowOf 0 1 2 ''Jane,123,1850-01-01'')"
    by code_simp
  have e: "''Row '' @ show_nat 2 @ '': '' @ rowError 2026 (rowOf 0 1 2 ''Jane,123,1850-01-01'')
           = ''Row 2: Birth year must be between 1900 and 2026''"
    by code_simp
  have k: "(1::nat) \<le> 2 \<and> 2 < length (nonBlankLines sampleCSV)
           \<and> yearOutOfRange 2026 (rowOf 0 1 2 (nonBlankLines sampleCSV ! 2))"
    using y by (simp add: sample_lines)
  note th = parseCSV_skips_invalid_rows[OF sample_limits i,
      where maxYear = 2026 and other = "''id,city''"]
  from th headerOnly_limits
  have q: "\<exists>msg. parseCSV_trace 2026 ''id,city'' = (Inl (Error msg), [])"
    by blast
  from th have p: "parseCSV 2026 sampleCSV
       = Inr [\<lparr>name = Some ''John Smith'', postal_code = Some ''12345'',
               birthday = Some ''1990-01-02''\<rparr>]"
    by (simp only: sample_lines sample_kept) simp
  from th have "\<forall>k. 1 \<le> k \<and> k < length (nonBlankLines sampleCSV)
                  \<and> yearOutOfRange 2026 (rowOf 0 1 2 (nonBlankLines sampleCSV ! k)) \<longrightarrow>
               rowOf 0 1 2 (nonBlankLines sampleCSV ! k)
                  \<notin> set (keptRows 2026 0 1 2 (nonBlankLines sampleCSV))
               \<and> (''Row '' @ show_nat k @ '': ''
                    @ rowError 2026 (rowOf 0 1 2 (nonBlankLines sampleCSV ! k)))
                  \<in> set (recordedErrors 2026 0 1 2 (nonBlankLines sampleCSV))"
    by blast
  note r = this[rule_format, OF k]
  from r have a: "rowOf 0 1 2 (nonBlankLines sampleCSV ! 2)
          \<notin> set (keptRows 2026 0 1 2 (nonBlankLines sampleCSV))"
    by (rule conjunct1)
  from r[unfolded l2 e] have b: "''Row 2: Birth year must be between 1900 and 2026''
          \<in> set (recordedErrors 2026 0 1 2 (nonBlankLines sampleCSV))"
    by (rule conjunct2)
  from a b sample_limits i k p q headerOnly_limits show ?thesis by blast
qed

lemma split_on_append:
  "split_on sep (a @ sep # b) = split_on sep a @ split_on sep b"
proof (induction a)
  case Nil
  then show ?case by simp
next
  case (Cons c a)
  then show ?case
    by (cases "split_on sep a") (auto simp: split_on_not_Nil)
qed

lemma split_on_many:
  assumes "sep \<notin> set r"
  shows "split_on sep (h @ concat (replicate n (sep # r))) = split_on sep h @ replicate n r"
proof (induction n arbitrary: h)
  case 0
  then show ?case by simp
next
  case (Suc n)
  have "h @ concat (replicate (Suc n) (sep # r)) = (h @ sep # r) @ concat (replicate n (sep # r))"
    by simp
  then have "split_on sep (h @ concat (replicate (Suc n) (sep # r)))
             = split_on sep (h @ sep # r) @ replicate n r"
    by (simp only: Suc.IH)
  also have "split_on sep (h @ sep # r) = split_on sep h @ [r]"
    using assms by (simp add: split_on_append split_on_no_sep)
  finally show ?case by (simp add: replicate_app_Cons_same)
qed

lemma trim_badFirstCSV: "trim (badFirstCSV (Suc n)) = badFirstCSV (Suc n)"
proof (rule trim_fixed)
  show "badFirstCSV (Suc n) \<noteq> []" by (simp add: badFirstCSV_def)
  show "\<not> is_ws (hd (badFirstCSV (Suc n)))"
    by (simp add: badFirstCSV_def is_ws_def code_def)
  have "last (badFirstCSV (Suc n)) = CHR ''2''"
    unfolding badFirstCSV_def by (subst last_repeated) simp_all
  then show "\<not> is_ws (last (badFirstCSV (Suc n)))"
    by (simp add: is_ws_def code_def)
qed

lemma lines_badFirstCSV:
  "split_on (CHR 0x0A) (badFirstCSV n)
   = [''name,postal,birth'', ''Jane,123,1850-01-01''] @ replicate n ''Ann,123,2000-01-02''"
proof -
  have "split_on (CHR 0x0A) (''name,postal,birth'' @ [CHR 0x0A] @ ''Jane,123,1850-01-01'')
        = [''name,postal,birth'', ''Jane,123,1850-01-01'']"
    by code_simp
  then show ?thesis
    unfolding badFirstCSV_def by (subst split_on_many) simp_all
qed

lemma nonBlankLines_badFirstCSV:
  "nonBlankLines (badFirstCSV (Suc n))
   = [''name,postal,birth'', ''Jane,123,1850-01-01''] @ replicate (Suc n) ''Ann,123,2000-01-02''"
proof -
  have a: "trim ''name,postal,birth'' \<noteq> []" by code_simp
  have b: "trim ''Ann,123,2000-01-02'' \<noteq> []" by code_simp
  have c: "trim ''Jane,123,1850-01-01'' \<noteq> []" by code_simp
  show ?thesis
    unfolding nonBlankLines_def trim_badFirstCSV lines_badFirstCSV
    using a b c by (simp del: replicate_Suc)
qed

lemma length_badFirstCSV: "length (badFirstCSV n) = 37 + 19 * n"
  by (induction n) (simp_all add: badFirstCSV_def)

text \<open>
  C7 as stated fails for a CSV that does not reach the loop. The first data line below has
  a birthday of 1850 and the other 1000 data lines are valid, but the call throws for the row
  count: the row of 1850 is not recorded as an error and no valid row is returned.
\<close>

theorem parseCSV_too_many_rows_hides_bad_row:
  "nonBlankLines (badFirstCSV 1000) ! 1 = ''Jane,123,1850-01-01''
   \<and> yearOutOfRange 2026 (rowOf 0 1 2 ''Jane,123,1850-01-01'')
   \<and> parseCSV_trace 2026 (badFirstCSV 1000)
       = (Inl (Error ''CSV has too many rows. Maximum is 1000 rows''), [])"
proof -
  have y: "yearOutOfRange 2026 (rowOf 0 1 2 ''Jane,123,1850-01-01'')"
    by code_simp
  have s: "show_nat 1000 = ''1000''" by code_simp
  have l: "nonBlankLines (badFirstCSV 1000)
           = [''name,postal,birth'', ''Jane,123,1850-01-01''] @ replicate 1000 ''Ann,123,2000-01-02''"
    using nonBlankLines_badFirstCSV[of 999] by simp
  have "parseCSV_trace 2026 (badFirstCSV 1000)
       = (Inl (Error ''CSV has too many rows. Maximum is 1000 rows''), [])"
    unfolding parseCSV_trace_def l
    by (simp add: length_badFirstCSV maxFileSize_def maxRows_def s)
  with y l show ?thesis by simp
qed

section \<open>Unresolved columns\<close>

lemma sublist_append_left: "sublist a b \<Longrightarrow> sublist a (p @ b)"
  by (metis append.assoc sublist_def)

lemma sublist_join:
  "x \<in> set xs \<Longrightarrow> sublist x (join sep xs)"
proof (induction sep xs rule: join.induct)
  case (1 sep)
  then show ?case by simp
next
  case (2 sep y)
  then show ?case by simp
next
  case (3 sep y z zs)
  show ?case
  proof (cases "x = y")
    case True
    then show ?thesis by simp
  next
    case False
    with 3 have "sublist x (join sep (z # zs))" by simp
    then have "sublist x ((y @ sep) @ join sep (z # zs))" by (rule sublist_append_left)
    then show ?thesis by simp
  qed
qed

lemma missingMessage_names:
  assumes "m \<in> set missing"
  shows "sublist m (missingMessage missing headers)"
proof -
  have "sublist m (join '', '' missing)" using assms by (rule sublist_join)
  then obtain ps ss where "join '', '' missing = ps @ m @ ss" by (auto simp: sublist_def)
  then have "missingMessage missing headers
     = (''CSV is missing required columns: '' @ ps) @ m @ (ss @ ''. Found columns: '' @ join '', '' headers)"
    by (simp add: missingMessage_def)
  then show ?thesis unfolding sublist_def by blast
qed

lemma parseCSV_missing_message:
  assumes "limitsPassed csvContent" and "strictIndices csvContent = (ni, pi, bi)"
    and "ni = None \<or> pi = None \<or> bi = None"
  shows "parseCSV maxYear csvContent
         = Inl (Error (missingMessage (missingColumns ni pi bi)
                         (parseHeaders (nonBlankLines csvContent ! 0))))"
  using assms unfolding parseCSV_def parseCSV_trace_def strictIndices_def limitsPassed_def
  by (auto simp: Let_def split: option.splits)

lemma parseCSV_missing_rejected:
  assumes "strictIndices csvContent = (ni, pi, bi)" and "ni = None \<or> pi = None \<or> bi = None"
  shows "\<exists>msg. parseCSV maxYear csvContent = Inl (Error msg)"
  using assms unfolding parseCSV_def parseCSV_trace_def strictIndices_def
  by (auto simp: Let_def split: option.splits)

lemma parseCSV_permissive_missing:
  assumes "2 \<le> length (split_on (CHR 0x0A) (trim csvContent))"
    and "permissiveIndices csvContent = (ni, pi, bi)"
    and "ni = None \<or> pi = None \<or> bi = None"
  shows "parseCSV_permissive csvContent
         = Inl (Error ''CSV must contain 'name', 'postal_code', and 'birthday' columns'')"
  using assms unfolding parseCSV_permissive_def permissiveIndices_def
  by (auto simp: Let_def split: option.splits)

lemma parseCSV_permissive_one_line:
  assumes "length (split_on (CHR 0x0A) (trim csvContent)) < 2"
  shows "parseCSV_permissive csvContent
         = Inl (Error ''CSV must contain headers and at least one data row'')"
  using assms unfolding parseCSV_permissive_def by (simp add: Let_def)

lemma headerOnly_one_line: "length (split_on (CHR 0x0A) (trim ''id,city'')) < 2"
  by code_simp

lemma noBirthday_lines:
  "nonBlankLines noBirthdayCSV = [''name,zip,city'', ''John Smith,12345,Paris'']"
  by code_simp

lemma noBirthday_limits: "limitsPassed noBirthdayCSV"
proof -
  have "length noBirthdayCSV \<le> maxFileSize"
    by (simp add: noBirthdayCSV_def maxFileSize_def)
  then show ?thesis
    by (simp add: limitsPassed_def noBirthday_lines maxRows_def)
qed

lemma noBirthday_strictIndices: "strictIndices noBirthdayCSV = (Some 0, Some 1, None)"
  by code_simp

lemma noBirthday_permissive:
  "2 \<le> length (split_on (CHR 0x0A) (trim noBirthdayCSV))"
  "permissiveIndices noBirthdayCSV = (Some 0, None, None)"
  by code_simp+

lemma noBirthday_message:
  "missingMessage (missingColumns (Some 0) (Some 1) None)
     (parseHeaders (nonBlankLines noBirthdayCSV ! 0))
   = ''CSV is missing required columns: birthday (e.g., 'birthday', 'birth', 'dob', 'date_of_birth'). Found columns: name, zip, city''"
  by code_simp

text \<open>
  C8, as the code has it. A CSV whose header line resolves no position for one of the three
  columns is always rejected by the strict parseCSV. When the content passes the checks that
  come first (size, at least two non-blank lines, row count), the message is the one built
  from the missing columns, and it contains the description of each missing column. The
  permissive parseCSV, when the trimmed content has at least two lines, rejects with one
  fixed message that names all three columns. A content that fails an earlier check is
  rejected with the message of that check.
\<close>

theorem parseCSV_names_missing_columns:
  "(strictIndices csvContent = (ni, pi, bi) \<and> (ni = None \<or> pi = None \<or> bi = None) \<longrightarrow>
      (\<exists>msg. parseCSV maxYear csvContent = Inl (Error msg)
         \<and> (limitsPassed csvContent \<longrightarrow>
              msg = missingMessage (missingColumns ni pi bi)
                      (parseHeaders (nonBlankLines csvContent ! 0))
              \<and> (ni = None \<longrightarrow> sublist ''name (e.g., 'name', 'full_name', 'fullname')'' msg)
              \<and> (pi = None \<longrightarrow>
                    sublist ''postal code (e.g., 'postal_code', 'zip', 'postal')'' msg)
              \<and> (bi = None \<longrightarrow>
                    sublist ''birthday (e.g., 'birthday', 'birth', 'dob', 'date_of_birth')''
                      msg))))
   \<and> (2 \<le> length (split_on (CHR 0x0A) (trim csvContent))
        \<and> permissiveIndices csvContent = (ni', pi', bi')
        \<and> (ni' = None \<or> pi' = None \<or> bi' = None) \<longrightarrow>
      parseCSV_permissive csvContent
        = Inl (Error ''CSV must contain 'name', 'postal_code', and 'birthday' columns''))
   \<and> (\<not> limitsPassed csvContent \<longrightarrow>
        parseCSV maxYear csvContent
          = Inl (Error ''CSV file is too large. Maximum size is 5MB'')
        \<or> parseCSV maxYear csvContent
          = Inl (Error ''CSV must contain headers and at least one data row'')
        \<or> parseCSV maxYear csvContent
          = Inl (Error ''CSV has too many rows. Maximum is 1000 rows''))
   \<and> (length (split_on (CHR 0x0A) (trim csvContent)) < 2 \<longrightarrow>
        parseCSV_permissive csvContent
          = Inl (Error ''CSV must contain headers and at least one data row''))"
proof (intro conjI impI)
  assume a: "strictIndices csvContent = (ni, pi, bi) \<and> (ni = None \<or> pi = None \<or> bi = None)"
  then obtain msg where m: "parseCSV maxYear csvContent = Inl (Error msg)"
    using parseCSV_missing_rejected[of csvContent ni pi bi maxYear] by blast
  have "msg = missingMessage (missingColumns ni pi bi)
                      (parseHeaders (nonBlankLines csvContent ! 0))
        \<and> (ni = None \<longrightarrow> sublist ''name (e.g., 'name', 'full_name', 'fullname')'' msg)
        \<and> (pi = None \<longrightarrow> sublist ''postal code (e.g., 'postal_code', 'zip', 'postal')'' msg)
        \<and> (bi = None \<longrightarrow>
              sublist ''birthday (e.g., 'birthday', 'birth', 'dob', 'date_of_birth')'' msg)"
    if l: "limitsPassed csvContent"
  proof -
    from a l have "parseCSV maxYear csvContent
         = Inl (Error (missingMessage (missingColumns ni pi bi)
                         (parseHeaders (nonBlankLines csvContent ! 0))))"
      by (intro parseCSV_missing_message) simp_all
    with m have e: "msg = missingMessage (missingColumns ni pi bi)
                      (parseHeaders (nonBlankLines csvContent ! 0))"
      by simp
    have "ni = None \<Longrightarrow> ''name (e.g., 'name', 'full_name', 'fullname')''
            \<in> set (missingColumns ni pi bi)"
      and "pi = None \<Longrightarrow> ''postal code (e.g., 'postal_code', 'zip', 'postal')''
            \<in> set (missingColumns ni pi bi)"
      and "bi = None \<Longrightarrow> ''birthday (e.g., 'birthday', 'birth', 'dob', 'date_of_birth')''
            \<in> set (missingColumns ni pi bi)"
      by (simp_all add: missingColumns_def)
    then show ?thesis
      unfolding e by (blast intro: missingMessage_names)
  qed
  with m show "\<exists>msg. parseCSV maxYear csvContent = Inl (Error msg)
         \<and> (limitsPassed csvContent \<longrightarrow>
              msg = missingMessage (missingColumns ni pi bi)
                      (parseHeaders (nonBlankLines csvContent ! 0))
              \<and> (ni = None \<longrightarrow> sublist ''name (e.g., 'name', 'full_name', 'fullname')'' msg)
              \<and> (pi = None \<longrightarrow>
                    sublist ''postal code (e.g., 'postal_code', 'zip', 'postal')'' msg)
              \<and> (bi = None \<longrightarrow>
                    sublist ''birthday (e.g., 'birthday', 'birth', 'dob', 'date_of_birth')''
                      msg))"
    by blast
next
  assume "2 \<le> length (split_on (CHR 0x0A) (trim csvContent))
        \<and> permissiveIndices csvContent = (ni', pi', bi')
        \<and> (ni' = None \<or> pi' = None \<or> bi' = None)"
  then show "parseCSV_permissive csvContent
        = Inl (Error ''CSV must contain 'name', 'postal_code', and 'birthday' columns'')"
    by (intro parseCSV_permissive_missing[of csvContent ni' pi' bi']) simp_all
next
  assume "\<not> limitsPassed csvContent"
  from parseCSV_rejects_unpassed[OF this, of maxYear]
  show "parseCSV maxYear csvContent
          = Inl (Error ''CSV file is too large. Maximum size is 5MB'')
        \<or> parseCSV maxYear csvContent
          = Inl (Error ''CSV must contain headers and at least one data row'')
        \<or> parseCSV maxYear csvContent
          = Inl (Error ''CSV has too many rows. Maximum is 1000 rows'')"
    unfolding parseCSV_def by auto
next
  assume "length (split_on (CHR 0x0A) (trim csvContent)) < 2"
  then show "parseCSV_permissive csvContent
          = Inl (Error ''CSV must contain headers and at least one data row'')"
    by (rule parseCSV_permissive_one_line)
qed

theorem parseCSV_names_missing_columns_witness:
  "strictIndices noBirthdayCSV = (Some 0, Some 1, None) \<and> limitsPassed noBirthdayCSV
   \<and> parseCSV 2026 noBirthdayCSV
       = Inl (Error ''CSV is missing required columns: birthday (e.g., 'birthday', 'birth', 'dob', 'date_of_birth'). Found columns: name, zip, city'')
   \<and> sublist ''birthday (e.g., 'birthday', 'birth', 'dob', 'date_of_birth')''
        ''CSV is missing required columns: birthday (e.g., 'birthday', 'birth', 'dob', 'date_of_birth'). Found columns: name, zip, city''
   \<and> 2 \<le> length (split_on (CHR 0x0A) (trim noBirthdayCSV))
   \<and> permissiveIndices noBirthdayCSV = (Some 0, None, None)
   \<and> parseCSV_permissive noBirthdayCSV
       = Inl (Error ''CSV must contain 'name', 'postal_code', and 'birthday' columns'')
   \<and> \<not> limitsPassed ''id,city''
   \<and> (parseCSV 2026 ''id,city''
          = Inl (Error ''CSV file is too large. Maximum size is 5MB'')
        \<or> parseCSV 2026 ''id,city''
          = Inl (Error ''CSV must contain headers and at least one data row'')
        \<or> parseCSV 2026 ''id,city''
          = Inl (Error ''CSV has too many rows. Maximum is 1000 rows''))
   \<and> length (split_on (CHR 0x0A) (trim ''id,city'')) < 2
   \<and> parseCSV_permissive ''id,city''
       = Inl (Error ''CSV must contain headers and at least one data row'')"
proof -
  note th2 = parseCSV_names_missing_columns[of "''id,city''" None None None 2026 None None None]
  from th2 headerOnly_limits
  have s2: "parseCSV 2026 ''id,city''
          = Inl (Error ''CSV file is too large. Maximum size is 5MB'')
        \<or> parseCSV 2026 ''id,city''
          = Inl (Error ''CSV must contain headers and at least one data row'')
        \<or> parseCSV 2026 ''id,city''
          = Inl (Error ''CSV has too many rows. Maximum is 1000 rows'')"
    by blast
  from th2 headerOnly_one_line
  have p2: "parseCSV_permissive ''id,city''
       = Inl (Error ''CSV must contain headers and at least one data row'')"
    by blast
  note th = parseCSV_names_missing_columns[of noBirthdayCSV "Some 0" "Some 1" None 2026
      "Some 0" None None]
  from th noBirthday_strictIndices noBirthday_limits
  obtain msg where m: "parseCSV 2026 noBirthdayCSV = Inl (Error msg)"
    "msg = missingMessage (missingColumns (Some 0) (Some 1) None)
             (parseHeaders (nonBlankLines noBirthdayCSV ! 0))"
    "sublist ''birthday (e.g., 'birthday', 'birth', 'dob', 'date_of_birth')'' msg"
    by auto
  from th noBirthday_permissive
  have p: "parseCSV_permissive noBirthdayCSV
       = Inl (Error ''CSV must contain 'name', 'postal_code', and 'birthday' columns'')"
    by blast
  from m(2) have e: "msg = ''CSV is missing required columns: birthday (e.g., 'birthday', 'birth', 'dob', 'date_of_birth'). Found columns: name, zip, city''"
    by (simp only: noBirthday_message)
  from m(1,3)[unfolded e] p noBirthday_strictIndices noBirthday_limits noBirthday_permissive
    s2 p2 headerOnly_limits headerOnly_one_line
  show ?thesis by blast
qed

text \<open>
  C8 as stated fails when an earlier check rejects the content: a header line alone, with no
  recognisable column, is rejected with the message for a missing data row, which names no
  column.
\<close>

theorem parseCSV_header_only_message:
  "strictIndices ''id,city'' = (None, None, None)
   \<and> parseCSV 2026 ''id,city''
       = Inl (Error ''CSV must contain headers and at least one data row'')
   \<and> \<not> sublist ''name'' ''CSV must contain headers and at least one data row''
   \<and> \<not> sublist ''postal'' ''CSV must contain headers and at least one data row''
   \<and> \<not> sublist ''birth'' ''CSV must contain headers and at least one data row''"
proof -
  have "strictIndices ''id,city'' = (None, None, None)" by code_simp
  moreover have "parseCSV 2026 ''id,city''
       = Inl (Error ''CSV must contain headers and at least one data row'')"
    by (simp add: parseCSV_def parseCSV_trace_def headerOnly_lines maxFileSize_def)
  moreover have "\<not> sublist ''name'' ''CSV must contain headers and at least one data row''"
    "\<not> sublist ''postal'' ''CSV must contain headers and at least one data row''"
    "\<not> sublist ''birth'' ''CSV must contain headers and at least one data row''"
    by code_simp+
  ultimately show ?thesis by blast
qed

section \<open>The generated email\<close>

lemma replaceWsRuns_members:
  "x \<in> set (replaceWsRuns t) \<Longrightarrow> x = CHR ''.'' \<or> (x \<in> set t \<and> \<not> is_ws x)"
proof (induction t rule: replaceWsRuns.induct)
  case 1
  then show ?case by simp
next
  case (2 c cs)
  then show ?case
    by (auto split: if_splits dest: set_dropWhileD)
qed

lemma replaceWsRuns_no_ws: "\<forall>x\<in>set s. \<not> is_ws x \<Longrightarrow> replaceWsRuns s = s"
  by (induction s) auto

lemma replaceWsRuns_word:
  "\<forall>x\<in>set w. \<not> is_ws x \<Longrightarrow> replaceWsRuns (w @ r) = w @ replaceWsRuns r"
  by (induction w) auto

lemma replaceWsRuns_ws_ws:
  "is_ws c \<Longrightarrow> is_ws d \<Longrightarrow> replaceWsRuns (c # d # ds) = replaceWsRuns (d # ds)"
  by simp

lemma trim_no_ws: "\<forall>x\<in>set s. \<not> is_ws x \<Longrightarrow> trim s = s"
proof (cases "s = []")
  case True
  then show ?thesis by simp
next
  case False
  assume a: "\<forall>x\<in>set s. \<not> is_ws x"
  from False have "hd s \<in> set s" "last s \<in> set s" by simp_all
  with a have "\<not> is_ws (hd s)" "\<not> is_ws (last s)" by blast+
  with False show ?thesis by (intro trim_fixed)
qed

lemma lower_char_fixed: "\<not> is_upper_az c \<Longrightarrow> code c < 192 \<Longrightarrow> lower_char c = c"
  by (simp add: lower_char_def)

lemma email_char_props:
  assumes "x = CHR ''.'' \<or> is_lower_az x"
  shows "\<not> is_ws x" "lower_char x = x" "(is_lower_az x \<or> is_ws x) = is_lower_az x"
  using assms by (auto simp: is_lower_az_def is_ws_def is_upper_az_def code_def lower_char_def)

lemma domain_props:
  "toLowerCase ''@company.com'' = ''@company.com''"
  "filter (\<lambda>c. is_lower_az c \<or> is_ws c) ''@company.com'' = ''companycom''"
  "filter is_lower_az ''@company.com'' = ''companycom''"
  "\<forall>x\<in>set ''@company.com''. \<not> is_ws x"
  "\<forall>x\<in>set ''companycom''. \<not> is_ws x"
  "\<forall>x\<in>set ''companycom''. is_lower_az x"
  by code_simp+

lemma cleanName_chars:
  assumes "x \<in> set (replaceWsRuns (strippedName nm))"
  shows "x = CHR ''.'' \<or> is_lower_az x"
  using replaceWsRuns_members[OF assms] by (auto simp: strippedName_def)

lemma generateEmail_strippedName:
  "generateEmail nm = replaceWsRuns (strippedName nm) @ ''@company.com''"
  by (simp add: generateEmail_def strippedName_def)

lemma generateEmail_of_email:
  assumes c: "\<forall>x\<in>set c. x = CHR ''.'' \<or> is_lower_az x"
  shows "generateEmail (c @ ''@company.com'') = filter is_lower_az c @ ''companycom@company.com''"
proof -
  have low: "toLowerCase (c @ ''@company.com'') = c @ ''@company.com''"
  proof -
    have "map lower_char c = c"
      using c email_char_props(2) by (intro map_idI) blast
    then have "toLowerCase c = c" by (simp only: toLowerCase_def)
    moreover have "toLowerCase (c @ ''@company.com'')
                   = toLowerCase c @ toLowerCase ''@company.com''"
      by (simp only: toLowerCase_def map_append)
    ultimately show ?thesis by (simp only: domain_props(1))
  qed
  have nows: "\<forall>x\<in>set (c @ ''@company.com''). \<not> is_ws x"
    using c email_char_props(1) domain_props(4) by auto
  have f: "filter (\<lambda>c. is_lower_az c \<or> is_ws c) (c @ ''@company.com'')
           = filter is_lower_az c @ ''companycom''"
  proof -
    have "filter (\<lambda>c. is_lower_az c \<or> is_ws c) c = filter is_lower_az c"
      using c email_char_props(3) by (intro filter_cong) auto
    then show ?thesis by (simp only: filter_append domain_props(2))
  qed
  have s: "strippedName (c @ ''@company.com'') = filter is_lower_az c @ ''companycom''"
    by (simp only: strippedName_def low trim_no_ws[OF nows] f)
  have "\<forall>x\<in>set (filter is_lower_az c @ ''companycom''). \<not> is_ws x"
    using email_char_props(1) domain_props(5) by auto
  then have "replaceWsRuns (filter is_lower_az c @ ''companycom'')
             = filter is_lower_az c @ ''companycom''"
    by (rule replaceWsRuns_no_ws)
  then have "generateEmail (c @ ''@company.com'')
        = (filter is_lower_az c @ ''companycom'') @ ''@company.com''"
    by (simp only: generateEmail_strippedName s)
  then show ?thesis by simp
qed

lemma generateEmail_twice:
  "generateEmail (generateEmail nm)
   = filter is_lower_az (replaceWsRuns (strippedName nm)) @ ''companycom@company.com''"
proof -
  have "\<forall>x\<in>set (replaceWsRuns (strippedName nm)). x = CHR ''.'' \<or> is_lower_az x"
    using cleanName_chars by blast
  from generateEmail_of_email[OF this] show ?thesis
    by (simp only: generateEmail_strippedName)
qed

text \<open>
  C5, as the code has it. The email is a function of the name alone, so equal names give
  equal emails. The generator is not idempotent: applied to its own output it strips the
  period and the at-sign and appends the domain again, so the second result is the letters of
  the first followed by the domain, and it never equals the first.
\<close>

theorem generateEmail_second_application:
  "(nm1 = nm2 \<longrightarrow> generateEmail nm1 = generateEmail nm2)
   \<and> generateEmail (generateEmail nm)
       = filter is_lower_az (generateEmail nm) @ ''@company.com''
   \<and> generateEmail (generateEmail nm) \<noteq> generateEmail nm"
proof -
  let ?c = "replaceWsRuns (strippedName nm)"
  have tw: "generateEmail (generateEmail nm) = filter is_lower_az ?c @ ''companycom@company.com''"
    by (rule generateEmail_twice)
  have "filter is_lower_az (generateEmail nm) = filter is_lower_az ?c @ ''companycom''"
    by (simp only: generateEmail_strippedName filter_append domain_props(3))
  with tw have second: "generateEmail (generateEmail nm)
       = filter is_lower_az (generateEmail nm) @ ''@company.com''"
    by simp
  have "generateEmail (generateEmail nm) \<noteq> generateEmail nm"
  proof
    assume a: "generateEmail (generateEmail nm) = generateEmail nm"
    have "?c @ ''@company.com'' = generateEmail nm"
      by (simp only: generateEmail_strippedName)
    also have "\<dots> = filter is_lower_az ?c @ ''companycom@company.com''"
      using a tw by (rule trans[OF sym])
    also have "\<dots> = (filter is_lower_az ?c @ ''companycom'') @ ''@company.com''"
      by simp
    finally have eq: "?c = filter is_lower_az ?c @ ''companycom''"
      by (simp only: append_same_eq)
    have "\<forall>x\<in>set (filter is_lower_az ?c @ ''companycom''). is_lower_az x"
      using domain_props(6) by auto
    then have "\<forall>x\<in>set ?c. is_lower_az x"
      by (subst eq)
    then have "filter is_lower_az ?c = ?c" by (simp only: filter_id_conv)
    with eq have "?c = ?c @ ''companycom''" by (rule_tac trans) simp_all
    then show False by (simp only: self_append_conv) simp
  qed
  with second show ?thesis by blast
qed

theorem generateEmail_second_application_witness:
  "''Ann Lee'' = ''Ann Lee'' \<and> generateEmail ''Ann Lee'' = ''ann.lee@company.com''
   \<and> generateEmail (generateEmail ''Ann Lee'') = ''annleecompanycom@company.com''
   \<and> generateEmail (generateEmail ''Ann Lee'') \<noteq> generateEmail ''Ann Lee''"
proof -
  have e: "generateEmail ''Ann Lee'' = ''ann.lee@company.com''" by code_simp
  have f: "filter is_lower_az ''ann.lee@company.com'' = ''annleecompanycom''" by code_simp
  note th = generateEmail_second_application[of "''Ann Lee''" "''Ann Lee''" "''Ann Lee''",
      unfolded e f]
  from th have "generateEmail ''ann.lee@company.com'' = ''annleecompanycom'' @ ''@company.com''"
    and "generateEmail ''ann.lee@company.com'' \<noteq> ''ann.lee@company.com''"
    by blast+
  then show ?thesis unfolding e by simp
qed

text \<open>
  C5 as stated fails: applying the generator to the email of \<open>John Smith\<close> gives another
  string.
\<close>

theorem generateEmail_not_idempotent:
  "generateEmail ''John Smith'' = ''john.smith@company.com''
   \<and> generateEmail (generateEmail ''John Smith'') = ''johnsmithcompanycom@company.com''
   \<and> generateEmail (generateEmail ''John Smith'') \<noteq> generateEmail ''John Smith''"
proof -
  have a: "generateEmail ''John Smith'' = ''john.smith@company.com''" by code_simp
  have b: "generateEmail ''john.smith@company.com'' = ''johnsmithcompanycom@company.com''"
    by code_simp
  show ?thesis unfolding a b by simp
qed

lemma wordsOf_ws_prefix: "\<forall>x\<in>set a. is_ws x \<Longrightarrow> wordsOf (a @ s) = wordsOf s"
  by (induction a) auto

lemma wordsOf_all_ws: "\<forall>x\<in>set a. is_ws x \<Longrightarrow> wordsOf a = []"
  using wordsOf_ws_prefix[of a "[]"] by simp

lemma takeWhile_append_stop: "\<forall>y\<in>set b. \<not> P y \<Longrightarrow> takeWhile P (xs @ b) = takeWhile P xs"
  by (induction xs) (auto simp: takeWhile_eq_Nil_iff)

lemma dropWhile_append_stop: "\<forall>y\<in>set b. \<not> P y \<Longrightarrow> dropWhile P (xs @ b) = dropWhile P xs @ b"
proof (induction xs)
  case Nil
  then show ?case by (cases b) auto
next
  case (Cons x xs)
  then show ?case by simp
qed

lemma wordsOf_ws_suffix: "\<forall>x\<in>set b. is_ws x \<Longrightarrow> wordsOf (s @ b) = wordsOf s"
proof (induction s rule: wordsOf.induct)
  case 1
  then show ?case by (simp add: wordsOf_all_ws)
next
  case (2 c cs)
  show ?case
  proof (cases "is_ws c")
    case True
    with 2 show ?thesis by simp
  next
    case False
    have st: "\<forall>y\<in>set b. \<not> (\<not> is_ws y)" using 2(3) by simp
    have "takeWhile (\<lambda>x. \<not> is_ws x) (cs @ b) = takeWhile (\<lambda>x. \<not> is_ws x) cs"
      using st by (rule takeWhile_append_stop)
    moreover have "dropWhile (\<lambda>x. \<not> is_ws x) (cs @ b) = dropWhile (\<lambda>x. \<not> is_ws x) cs @ b"
      using st by (rule dropWhile_append_stop)
    ultimately show ?thesis
      using False 2(2)[OF False 2(3)] by simp
  qed
qed

lemma wordsOf_Nil_iff: "wordsOf s = [] \<longleftrightarrow> (\<forall>x\<in>set s. is_ws x)"
  by (induction s rule: wordsOf.induct) auto

lemma trim_decomp:
  "\<exists>a b. s = a @ trim s @ b \<and> (\<forall>x\<in>set a. is_ws x) \<and> (\<forall>x\<in>set b. is_ws x)"
proof -
  let ?a = "takeWhile is_ws s"
  let ?d = "dropWhile is_ws s"
  let ?b = "rev (takeWhile is_ws (rev ?d))"
  have "trim s @ ?b = rev (takeWhile is_ws (rev ?d) @ dropWhile is_ws (rev ?d))"
    by (simp only: trim_def rev_append)
  also have "\<dots> = rev (rev ?d)" by (simp only: takeWhile_dropWhile_id)
  finally have "?d = trim s @ ?b" by simp
  moreover have "s = ?a @ ?d" by simp
  ultimately have "s = ?a @ trim s @ ?b" by simp
  moreover have "\<forall>x\<in>set ?a. is_ws x" by (auto dest: set_takeWhileD)
  moreover have "\<forall>x\<in>set ?b. is_ws x" by (auto dest: set_takeWhileD)
  ultimately show ?thesis by blast
qed

lemma wordsOf_strippedName:
  "wordsOf (filter (\<lambda>c. is_lower_az c \<or> is_ws c) (toLowerCase nm)) = wordsOf (strippedName nm)"
proof -
  obtain a b where ab: "toLowerCase nm = a @ trim (toLowerCase nm) @ b"
    "\<forall>x\<in>set a. is_ws x" "\<forall>x\<in>set b. is_ws x"
    using trim_decomp[of "toLowerCase nm"] by blast
  have fa: "filter (\<lambda>c. is_lower_az c \<or> is_ws c) a = a"
    and fb: "filter (\<lambda>c. is_lower_az c \<or> is_ws c) b = b"
    using ab(2,3) by (simp_all add: filter_id_conv)
  have "filter (\<lambda>c. is_lower_az c \<or> is_ws c) (toLowerCase nm)
        = filter (\<lambda>c. is_lower_az c \<or> is_ws c) (a @ trim (toLowerCase nm) @ b)"
    using ab(1) by (rule arg_cong)
  also have "\<dots> = a @ strippedName nm @ b"
    by (simp only: filter_append fa fb strippedName_def)
  finally have "wordsOf (filter (\<lambda>c. is_lower_az c \<or> is_ws c) (toLowerCase nm))
                = wordsOf (a @ strippedName nm @ b)"
    by (rule arg_cong)
  also have "\<dots> = wordsOf (strippedName nm @ b)"
    using ab(2) by (rule wordsOf_ws_prefix)
  also have "\<dots> = wordsOf (strippedName nm)"
    using ab(3) by (rule wordsOf_ws_suffix)
  finally show ?thesis .
qed

lemma replaceWsRuns_formula:
  "replaceWsRuns s =
     (if s \<noteq> [] \<and> is_ws (hd s) then ''.'' else [])
     @ join ''.'' (wordsOf s)
     @ (if wordsOf s \<noteq> [] \<and> is_ws (last s) then ''.'' else [])"
proof (induction s rule: wordsOf.induct)
  case 1
  then show ?case by simp
next
  case (2 c cs)
  show ?case
  proof (cases "is_ws c")
    case True
    note IH = 2(1)[OF True]
    show ?thesis
    proof (cases cs)
      case Nil
      with True show ?thesis by simp
    next
      case (Cons d ds)
      show ?thesis
      proof (cases "is_ws d")
        case dw: True
        have "replaceWsRuns (c # cs) = replaceWsRuns cs"
          unfolding Cons using True dw by (rule replaceWsRuns_ws_ws)
        with IH True dw show ?thesis by (simp add: Cons)
      next
        case dn: False
        have "replaceWsRuns (c # cs) = CHR ''.'' # replaceWsRuns cs"
          using True dn by (simp add: Cons)
        with IH True dn show ?thesis by (simp add: Cons)
      qed
    qed
  next
    case False
    let ?w = "c # takeWhile (\<lambda>x. \<not> is_ws x) cs"
    let ?r = "dropWhile (\<lambda>x. \<not> is_ws x) cs"
    note IH = 2(2)[OF False]
    have split: "c # cs = ?w @ ?r" by simp
    have wn: "\<forall>x\<in>set ?w. \<not> is_ws x"
      using False by (auto dest: set_takeWhileD)
    have "replaceWsRuns (?w @ ?r) = ?w @ replaceWsRuns ?r"
      using wn by (rule replaceWsRuns_word)
    then have lhs: "replaceWsRuns (c # cs) = ?w @ replaceWsRuns ?r"
      by (simp only: split[symmetric])
    have words: "wordsOf (c # cs) = ?w # wordsOf ?r"
      using False by simp
    have last_free: "\<not> is_ws (last (c # cs))" if "?r = []"
    proof -
      from that have "cs = takeWhile (\<lambda>x. \<not> is_ws x) cs"
        by (metis append_Nil2 takeWhile_dropWhile_id)
      then have "\<forall>x\<in>set (c # cs). \<not> is_ws x"
        using wn by simp
      then show ?thesis
        using last_in_set[of "c # cs"] by blast
    qed
    have hr: "is_ws (hd ?r)" if "?r \<noteq> []"
      using that hd_dropWhile[of "\<lambda>x. \<not> is_ws x" cs] by simp
    have lr: "last (c # cs) = last ?r" if "?r \<noteq> []"
    proof -
      have "last (?w @ ?r) = last ?r" using that by (rule last_appendR)
      then show ?thesis by (simp only: split[symmetric])
    qed
    have wl: "is_ws (last ?r)" if "wordsOf ?r = []" "?r \<noteq> []"
    proof -
      from that(1) have "\<forall>x\<in>set ?r. is_ws x" by (simp only: wordsOf_Nil_iff)
      then show ?thesis using that(2) last_in_set by blast
    qed
    define s where "s = c # cs"
    define w where "w = ?w"
    define r where "r = ?r"
    have facts: "replaceWsRuns s = w @ replaceWsRuns r" "wordsOf s = w # wordsOf r"
      "s \<noteq> []" "\<not> is_ws (hd s)"
      "r = [] \<Longrightarrow> \<not> is_ws (last s)" "r \<noteq> [] \<Longrightarrow> is_ws (hd r)"
      "r \<noteq> [] \<Longrightarrow> last s = last r" "wordsOf r = [] \<Longrightarrow> r \<noteq> [] \<Longrightarrow> is_ws (last r)"
      "replaceWsRuns r =
         (if r \<noteq> [] \<and> is_ws (hd r) then ''.'' else [])
         @ join ''.'' (wordsOf r)
         @ (if wordsOf r \<noteq> [] \<and> is_ws (last r) then ''.'' else [])"
      unfolding s_def w_def r_def
      using lhs words False last_free hr lr wl IH by simp_all
    have "replaceWsRuns s =
       (if s \<noteq> [] \<and> is_ws (hd s) then ''.'' else [])
       @ join ''.'' (wordsOf s)
       @ (if wordsOf s \<noteq> [] \<and> is_ws (last s) then ''.'' else [])"
    proof (cases "r = []")
      case True
      with facts show ?thesis by simp
    next
      case rne: False
      show ?thesis
      proof (cases "wordsOf r")
        case Nil
        with facts rne show ?thesis by simp
      next
        case (Cons y ys)
        with facts rne show ?thesis by simp
      qed
    qed
    then show ?thesis by (simp only: s_def)
  qed
qed

text \<open>
  How the strict generator relates to the email of the specification: the two differ by a
  period at the start, or before the at-sign, and only when the stripping leaves white space
  at that end of the trimmed name.
\<close>

lemma generateEmail_joins_words:
  "generateEmail nm
     = leadingPeriod nm
       @ join ''.'' (wordsOf (filter (\<lambda>c. is_lower_az c \<or> is_ws c) (toLowerCase nm)))
       @ trailingPeriod nm @ ''@company.com''
   \<and> (generateEmail nm = generateEmail_spec nm
        \<longleftrightarrow> leadingPeriod nm = [] \<and> trailingPeriod nm = [])"
proof -
  let ?J = "join ''.'' (wordsOf (filter (\<lambda>c. is_lower_az c \<or> is_ws c) (toLowerCase nm)))"
  have "replaceWsRuns (strippedName nm)
        = leadingPeriod nm @ join ''.'' (wordsOf (strippedName nm)) @ trailingPeriod nm"
    unfolding leadingPeriod_def trailingPeriod_def by (rule replaceWsRuns_formula)
  then have e: "generateEmail nm = leadingPeriod nm @ ?J @ trailingPeriod nm @ ''@company.com''"
    by (simp only: generateEmail_strippedName wordsOf_strippedName) simp
  have sp: "generateEmail_spec nm = ?J @ ''@company.com''"
    by (simp only: generateEmail_spec_def)
  have "generateEmail nm = generateEmail_spec nm
        \<longleftrightarrow> leadingPeriod nm = [] \<and> trailingPeriod nm = []"
  proof
    assume "generateEmail nm = generateEmail_spec nm"
    then have "length (leadingPeriod nm @ ?J @ trailingPeriod nm @ ''@company.com'')
               = length (?J @ ''@company.com'')"
      by (simp only: e sp)
    then show "leadingPeriod nm = [] \<and> trailingPeriod nm = []" by simp
  next
    assume "leadingPeriod nm = [] \<and> trailingPeriod nm = []"
    then show "generateEmail nm = generateEmail_spec nm"
      by (simp only: e sp) simp
  qed
  with e show ?thesis by blast
qed

lemma hyphen_lines:
  "nonBlankLines hyphenCSV = [''name,zip,dob'', ''John -,12345,1990-01-02'']"
  by code_simp

lemma hyphen_limits: "limitsPassed hyphenCSV"
proof -
  have "length hyphenCSV \<le> maxFileSize"
    by (simp add: hyphenCSV_def maxFileSize_def)
  then show ?thesis
    by (simp add: limitsPassed_def hyphen_lines maxRows_def)
qed

lemma hyphen_kept:
  "keptRows 2026 0 1 2 [''name,zip,dob'', ''John -,12345,1990-01-02'']
   = [\<lparr>name = Some ''John -'', postal_code = Some ''12345'', birthday = Some ''1990-01-02''\<rparr>]"
  by code_simp

lemma hyphen_parsed:
  "parseCSV 2026 hyphenCSV
   = Inr [\<lparr>name = Some ''John -'', postal_code = Some ''12345'',
            birthday = Some ''1990-01-02''\<rparr>]"
proof -
  have i: "findNameIndex (parseHeaders (nonBlankLines hyphenCSV ! 0)) = Some 0"
    "findPostalIndex (parseHeaders (nonBlankLines hyphenCSV ! 0)) = Some 1"
    "findBirthdayIndex (parseHeaders (nonBlankLines hyphenCSV ! 0)) = Some 2"
    by (simp_all only: hyphen_lines nth_Cons_0 sample_headers sample_indices)
  show ?thesis
    unfolding parseCSV_def
    by (simp only: parseCSV_trace_passed[OF hyphen_limits i] hyphen_lines hyphen_kept) simp
qed

lemma generateEmail_permissive_keeps_digit:
  "generateEmail_permissive ''J0hn Smith'' = ''j0hn.smith@company.com''"
  by code_simp

text \<open>
  C4 fails on the code. The strict generator trims the name before it strips the characters
  other than letters, so white space uncovered at an end by the stripping becomes a period.
  The name \<open>John -\<close> passes the validators, is returned by the strict parseCSV, and gets
  the email \<open>john.@company.com\<close>, where the words of the name joined by a period give
  \<open>john@company.com\<close>. The permissive generator strips no character at all
  (\<open>generateEmail_permissive_keeps_digit\<close>).
\<close>

theorem generateEmail_dangling_period:
  "valid (validateName (Some ''John -''))
   \<and> parseCSV 2026 hyphenCSV
       = Inr [\<lparr>name = Some ''John -'', postal_code = Some ''12345'',
                birthday = Some ''1990-01-02''\<rparr>]
   \<and> generateEmail ''John -'' = ''john.@company.com''
   \<and> generateEmail_spec ''John -'' = ''john@company.com''"
proof -
  have a: "valid (validateName (Some ''John -''))" by code_simp
  have b: "generateEmail ''John -'' = ''john.@company.com''" by code_simp
  have c: "generateEmail_spec ''John -'' = ''john@company.com''" by code_simp
  from a b c hyphen_parsed show ?thesis by blast
qed

end
